theory Spec2Isabelle
  imports Main
begin

section \<open>Python values, exceptions and the observable effects\<close>

text \<open>
  The script \<open>scripts/collect_and_store_tweets.py\<close> is glue over three libraries
  (json, tweepy, pymongo). The values that flow through it are Python objects; the ones
  the script touches are modelled by \<open>pyval\<close>. A float or any other object the script
  only passes along is \<open>PObject\<close>, identified by an opaque tag.
\<close>

datatype pyval =
    PNone
  | PBool bool
  | PInt int
  | PStr string
  | PList "pyval list"
  | PDict "(string \<times> pyval) list"
  | PObject string

text \<open>
  Exceptions, by the class the \<open>except\<close> clauses discriminate on. \<open>OtherException\<close>
  is every class that none of the clauses of the script names.
\<close>

datatype exn =
    StopIteration
  | PyMongoError
  | TweepError
  | OSError string
  | JSONDecodeError
  | KeyError string
  | TypeError
  | OtherException string

datatype level = DEBUG | INFO | ERROR

record api =
  consumer_key :: pyval
  consumer_secret :: pyval
  access_token :: pyval
  access_secret :: pyval
  wait_on_rate_limit :: bool
  wait_on_rate_limit_notify :: bool
  retry_count :: int
  retry_delay :: int

text \<open>The keyword arguments of \<open>tweepy.Cursor(api.search, ...).items(n)\<close>.\<close>

record cursor_request =
  method_of :: api
  q :: string
  since :: string
  until :: string
  result_type :: string
  items :: int

record user =
  name :: pyval
  followers_count :: pyval
  location :: pyval

record tweet =
  tweet_text :: pyval
  lang :: pyval
  created_at :: pyval
  user :: user
  retweet_count :: pyval
  favorite_count :: pyval

type_synonym document = "(string \<times> pyval) list"

text \<open>\<open>MongoClient(host, port).<database>.<collection>\<close>.\<close>

record collection =
  host :: string
  port :: int
  database :: string
  coll_name :: string

text \<open>
  Everything the script does to the outside world, in the order it does it. A \<open>Log\<close>
  carries the level, the formatted message and the exception attached by
  \<open>exc_info=True\<close>, if any. \<open>Next\<close> is a call of \<open>tweets.next()\<close> on the cursor with
  the given number, with what the call returned or raised; \<open>InsertOne\<close> a call of
  \<open>insert_one\<close> with the exception it raised, if any; \<open>Randint a b r\<close> a call of
  \<open>randint(a, b)\<close> that returned \<open>r\<close>.
\<close>

datatype effect =
    Log level string "exn option"
  | Sleep int
  | CursorOpened nat cursor_request
  | Next nat "exn + tweet"
  | InsertOne collection document "exn option"
  | Randint int int int

text \<open>
  The libraries are parameters of the model: what \<open>open(...).read()\<close> gives for a path,
  what \<open>json.loads\<close> gives for a text, what \<open>str()\<close> gives for a value that is not a
  string, what the \<open>k\<close>-th call of \<open>next()\<close> on the \<open>c\<close>-th cursor gives, what the
  \<open>k\<close>-th call of \<open>insert_one\<close> gives, and what the \<open>k\<close>-th call of \<open>randint\<close> gives.
\<close>

record env =
  read_file :: "string \<Rightarrow> exn + string"
  json_loads :: "string \<Rightarrow> exn + pyval"
  str_of :: "pyval \<Rightarrow> string"
  api_search :: "nat \<Rightarrow> cursor_request \<Rightarrow> nat \<Rightarrow> exn + tweet"
  insert_one :: "collection \<Rightarrow> nat \<Rightarrow> document \<Rightarrow> exn option"
  randint :: "nat \<Rightarrow> int \<Rightarrow> int \<Rightarrow> int"

record world =
  trace :: "effect list"
  cursors_opened :: nat
  insert_calls :: nat
  randint_calls :: nat

definition emit :: "effect \<Rightarrow> world \<Rightarrow> world" where
  "emit x w = w\<lparr>trace := trace w @ [x]\<rparr>"

definition logging :: "level \<Rightarrow> string \<Rightarrow> world \<Rightarrow> world" where
  "logging l m w = emit (Log l m None) w"

definition sleep :: "int \<Rightarrow> world \<Rightarrow> world" where
  "sleep n w = emit (Sleep n) w"

text \<open>What \<open>"{}".format(v)\<close> puts in place of the braces.\<close>

definition format_value :: "env \<Rightarrow> pyval \<Rightarrow> string" where
  "format_value e v = (case v of PStr s \<Rightarrow> s | _ \<Rightarrow> str_of e v)"

section \<open>load_twitter_credentials\<close>

text \<open>The subscript \<open>v[k]\<close> with a string key.\<close>

definition getitem :: "pyval \<Rightarrow> string \<Rightarrow> exn + pyval" where
  "getitem v k =
     (case v of
        PDict kvs \<Rightarrow> (case map_of kvs k of None \<Rightarrow> Inl (KeyError k) | Some x \<Rightarrow> Inr x)
      | _ \<Rightarrow> Inl TypeError)"

text \<open>\<open>api_twitter['Twitter'][k]\<close>\<close>

definition twitter_field :: "pyval \<Rightarrow> string \<Rightarrow> exn + pyval" where
  "twitter_field api_twitter k =
     (case getitem api_twitter ''Twitter'' of
        Inl x \<Rightarrow> Inl x
      | Inr t \<Rightarrow> getitem t k)"

definition load_twitter_credentials ::
  "env \<Rightarrow> string \<Rightarrow> world \<Rightarrow> (exn + pyval \<times> pyval \<times> pyval \<times> pyval) \<times> world" where
  "load_twitter_credentials e keys_filename w =
     (case read_file e keys_filename of
        Inl x \<Rightarrow> (Inl x, w)
      | Inr contents \<Rightarrow>
     (case json_loads e contents of
        Inl x \<Rightarrow> (Inl x, w)
      | Inr api_twitter \<Rightarrow>
     (case twitter_field api_twitter ''consumer_key'' of
        Inl x \<Rightarrow> (Inl x, w)
      | Inr ck \<Rightarrow>
     (case twitter_field api_twitter ''consumer_secret'' of
        Inl x \<Rightarrow> (Inl x, w)
      | Inr cs \<Rightarrow>
     (case twitter_field api_twitter ''access_token'' of
        Inl x \<Rightarrow> (Inl x, w)
      | Inr at \<Rightarrow>
     (case twitter_field api_twitter ''access_secret'' of
        Inl x \<Rightarrow> (Inl x, w)
      | Inr as \<Rightarrow>
          (Inr (ck, cs, at, as),
           logging DEBUG (format_value e ck @ ''-'' @ format_value e cs @ ''-''
                          @ format_value e at @ ''-'' @ format_value e as) w)))))))"

section \<open>twitter_api_setup\<close>


section \<open>collect_and_store_tweets_from_query\<close>

text \<open>
  The iterator \<open>tweets\<close>: the number of the cursor, the request it was opened with, and
  how many times \<open>next()\<close> has been called on it.
\<close>

record cursor =
  cursor_id :: nat
  request :: cursor_request
  position :: nat

text \<open>Lines 62-67: \<open>tweets = tweepy.Cursor(api.search, q=..., ...).items(number_of_tweets)\<close>.\<close>

definition open_cursor ::
  "api \<Rightarrow> string \<Rightarrow> string \<Rightarrow> string \<Rightarrow> int \<Rightarrow> world \<Rightarrow> cursor \<times> world" where
  "open_cursor a query since_date until_date number_of_tweets w =
     (let req = \<lparr>method_of = a, q = query @ '' -filter:retweets'', since = since_date,
                 until = until_date, result_type = ''mixed'', items = number_of_tweets\<rparr>;
          c = \<lparr>cursor_id = cursors_opened w, request = req, position = 0\<rparr>
      in (c, (emit (CursorOpened (cursors_opened w) req) w)\<lparr>cursors_opened := Suc (cursors_opened w)\<rparr>))"

text \<open>\<open>tweets.next()\<close>\<close>

definition tweets_next :: "env \<Rightarrow> cursor \<Rightarrow> world \<Rightarrow> (exn + tweet) \<times> cursor \<times> world" where
  "tweets_next e c w =
     (let r = api_search e (cursor_id c) (request c) (position c)
      in (r, c\<lparr>position := Suc (position c)\<rparr>, emit (Next (cursor_id c) r) w))"

text \<open>\<open>mongo_collection.insert_one(d)\<close>\<close>

definition insert_one_call :: "env \<Rightarrow> collection \<Rightarrow> document \<Rightarrow> world \<Rightarrow> exn option \<times> world" where
  "insert_one_call e coll d w =
     (let r = insert_one e coll (insert_calls w) d
      in (r, (emit (InsertOne coll d r) w)\<lparr>insert_calls := Suc (insert_calls w)\<rparr>))"

text \<open>Lines 74-84: the dictionary literal, in the order of its keys.\<close>

definition filtered_tweet :: "string \<Rightarrow> tweet \<Rightarrow> document" where
  "filtered_tweet query t =
     [(''query'', PStr query),
      (''text'', tweet_text t),
      (''language'', lang t),
      (''date'', created_at t),
      (''username'', name (user t)),
      (''user_followers'', followers_count (user t)),
      (''user_location'', location (user t)),
      (''retweets'', retweet_count t),
      (''likes'', favorite_count t)]"

text \<open>Lines 71-85: the body of the \<open>try\<close>. The result is the exception that left it, if any.\<close>

definition try_body ::
  "env \<Rightarrow> string \<Rightarrow> collection \<Rightarrow> cursor \<Rightarrow> world \<Rightarrow> exn option \<times> cursor \<times> world" where
  "try_body e query coll c w =
     (case tweets_next e c w of
        (Inl x, c1, w1) \<Rightarrow> (Some x, c1, w1)
      | (Inr t, c1, w1) \<Rightarrow>
          (let w2 = logging INFO (''Query: '' @ query @ '', Tweet_date: ''
                                  @ format_value e (created_at t)) w1;
               (r, w3) = insert_one_call e coll (filtered_tweet query t) w2
           in (r, c1, w3)))"

text \<open>How one pass through the body of \<open>while True\<close> ends.\<close>

datatype control = Continue | Break | Propagate exn

text \<open>Lines 86-95: the three \<open>except\<close> clauses; any other exception leaves the function.\<close>

definition handler :: "env \<Rightarrow> string \<Rightarrow> exn \<Rightarrow> int \<Rightarrow> world \<Rightarrow> control \<times> int \<times> world" where
  "handler e query x backoff_counter w =
     (case x of
        StopIteration \<Rightarrow>
          (Break, backoff_counter,
           logging INFO (''Finished collecting and storing tweets for '' @ query) w)
      | PyMongoError \<Rightarrow>
          (Continue, backoff_counter,
           emit (Log ERROR ''Error on writing on MongoDB'' (Some PyMongoError)) w)
      | TweepError \<Rightarrow>
          (let w1 = logging INFO (''Reached Tweet limits, waiting for ''
                                  @ format_value e (PInt (60 * backoff_counter)) @ '' seconds'') w;
               w2 = sleep (60 * backoff_counter) w1
           in (Continue, backoff_counter + 1, w2))
      | _ \<Rightarrow> (Propagate x, backoff_counter, w))"

text \<open>Lines 70-95: one pass through the body of \<open>while True\<close>.\<close>

definition loop_body ::
  "env \<Rightarrow> string \<Rightarrow> collection \<Rightarrow> cursor \<Rightarrow> int \<Rightarrow> world \<Rightarrow> control \<times> cursor \<times> int \<times> world" where
  "loop_body e query coll c backoff_counter w =
     (case try_body e query coll c w of
        (None, c1, w1) \<Rightarrow> (Continue, c1, backoff_counter, w1)
      | (Some x, c1, w1) \<Rightarrow>
          (case handler e query x backoff_counter w1 of (k, b, w2) \<Rightarrow> (k, c1, b, w2)))"

text \<open>
  Lines 69-95: \<open>while True\<close>. The loop need not end, so it is a partial function:
  \<open>None\<close> is a loop that runs forever, \<open>Some (Inl x, w)\<close> one that exception \<open>x\<close> left,
  \<open>Some (Inr (), w)\<close> one that \<open>break\<close> left.
\<close>

partial_function (option) while_true ::
  "env \<Rightarrow> string \<Rightarrow> collection \<Rightarrow> cursor \<Rightarrow> int \<Rightarrow> world \<Rightarrow> ((exn + unit) \<times> world) option" where
  "while_true e query coll c backoff_counter w =
     (case loop_body e query coll c backoff_counter w of
        (Continue, c1, b1, w1) \<Rightarrow> while_true e query coll c1 b1 w1
      | (Break, c1, b1, w1) \<Rightarrow> Some (Inr (), w1)
      | (Propagate x, c1, b1, w1) \<Rightarrow> Some (Inl x, w1))"

text \<open>
  \<open>number_of_tweets\<close> is \<open>None\<close> when the caller leaves the argument out, and the default
  of line 48 applies.
\<close>

definition collect_and_store_tweets_from_query ::
  "env \<Rightarrow> api \<Rightarrow> string \<Rightarrow> string \<Rightarrow> string \<Rightarrow> collection \<Rightarrow> int option \<Rightarrow> world
     \<Rightarrow> ((exn + unit) \<times> world) option" where
  "collect_and_store_tweets_from_query e a query since_date until_date mongo_collection
       number_of_tweets w =
     (let n = (case number_of_tweets of None \<Rightarrow> 200 | Some n \<Rightarrow> n);
          backoff_counter = 1;
          w1 = logging INFO ''collect_and_store_tweets_from_query >>>'' w;
          (tweets, w2) = open_cursor a query since_date until_date n w1
      in case while_true e query mongo_collection tweets backoff_counter w2 of
           None \<Rightarrow> None
         | Some (Inl x, w3) \<Rightarrow> Some (Inl x, w3)
         | Some (Inr u, w3) \<Rightarrow>
             Some (Inr (), logging INFO ''collect_and_store_tweets_from_query <<<'' w3))"

section \<open>download_and_store_tweets_on_mongodb\<close>

text \<open>\<open>sleep(randint(30, 120))\<close>\<close>

definition sleep_randint :: "env \<Rightarrow> int \<Rightarrow> int \<Rightarrow> world \<Rightarrow> world" where
  "sleep_randint e a b w =
     (let r = randint e (randint_calls w) a b;
          w1 = (emit (Randint a b r) w)\<lparr>randint_calls := Suc (randint_calls w)\<rparr>
      in sleep r w1)"

text \<open>Lines 113-116: the \<open>for\<close> loop over the queries.\<close>

fun for_query ::
  "env \<Rightarrow> api \<Rightarrow> string list \<Rightarrow> string \<Rightarrow> string \<Rightarrow> collection \<Rightarrow> world
     \<Rightarrow> ((exn + unit) \<times> world) option" where
  "for_query e a [] since_date until_date coll w = Some (Inr (), w)"
| "for_query e a (query # rest) since_date until_date coll w =
     (let w1 = logging INFO (''Working on: '' @ query) w
      in case collect_and_store_tweets_from_query e a query since_date until_date coll None w1 of
           None \<Rightarrow> None
         | Some (Inl x, w2) \<Rightarrow> Some (Inl x, w2)
         | Some (Inr u, w2) \<Rightarrow>
             for_query e a rest since_date until_date coll (sleep_randint e 30 120 w2))"

definition download_and_store_tweets_on_mongodb ::
  "env \<Rightarrow> api \<Rightarrow> string list \<Rightarrow> string \<Rightarrow> string \<Rightarrow> collection \<Rightarrow> world
     \<Rightarrow> ((exn + unit) \<times> world) option" where
  "download_and_store_tweets_on_mongodb e a list_of_queries since_date until_date
       mongodb_collection w =
     (let w1 = logging INFO ''download_and_store_tweets_on_mongodb >>>'' w
      in case for_query e a list_of_queries since_date until_date mongodb_collection w1 of
           None \<Rightarrow> None
         | Some (Inl x, w2) \<Rightarrow> Some (Inl x, w2)
         | Some (Inr u, w2) \<Rightarrow>
             Some (Inr (), logging INFO ''download_and_store_tweets_on_mongodb <<<'' w2))"

section \<open>download_and_store_tweets_on_default_mongodb_instance\<close>




section \<open>Reading a trace\<close>

text \<open>The effects of a call that took the world from \<open>w\<close> to \<open>w'\<close>.\<close>

definition emitted :: "world \<Rightarrow> world \<Rightarrow> effect list" where
  "emitted w w' = drop (length (trace w)) (trace w')"

text \<open>The items that \<open>next()\<close> returned, in order.\<close>

fun item_of :: "effect \<Rightarrow> tweet list" where
  "item_of (Next c (Inr t)) = [t]"
| "item_of _ = []"

definition fetched :: "effect list \<Rightarrow> tweet list" where
  "fetched tr = concat (map item_of tr)"

text \<open>The calls of \<open>insert_one\<close>, in order: collection, document, exception raised.\<close>

fun write_of :: "effect \<Rightarrow> (collection \<times> document \<times> exn option) list" where
  "write_of (InsertOne c d r) = [(c, d, r)]"
| "write_of _ = []"

definition writes :: "effect list \<Rightarrow> (collection \<times> document \<times> exn option) list" where
  "writes tr = concat (map write_of tr)"

text \<open>The exceptions that \<open>next()\<close> and \<open>insert_one\<close> raised, in order.\<close>

fun raised_of :: "effect \<Rightarrow> exn list" where
  "raised_of (Next c (Inl x)) = [x]"
| "raised_of (InsertOne c d (Some x)) = [x]"
| "raised_of _ = []"

definition raised :: "effect list \<Rightarrow> exn list" where
  "raised tr = concat (map raised_of tr)"

definition rate_limit_signals :: "effect list \<Rightarrow> nat" where
  "rate_limit_signals tr = length (filter (\<lambda>x. x = TweepError) (raised tr))"

text \<open>
  The rate-limit signals and the sleeps of a trace, in order: \<open>None\<close> for a call that
  raised \<open>TweepError\<close>, \<open>Some n\<close> for \<open>sleep(n)\<close>.
\<close>

fun backoff_of :: "effect \<Rightarrow> int option list" where
  "backoff_of (Sleep n) = [Some n]"
| "backoff_of x = (if raised_of x = [TweepError] then [None] else [])"

definition backoff_view :: "effect list \<Rightarrow> int option list" where
  "backoff_view tr = concat (map backoff_of tr)"

text \<open>The cursors opened, and the cursors that \<open>next()\<close> was called on.\<close>

fun opened_of :: "effect \<Rightarrow> (nat \<times> cursor_request) list" where
  "opened_of (CursorOpened c r) = [(c, r)]"
| "opened_of _ = []"

definition opened :: "effect list \<Rightarrow> (nat \<times> cursor_request) list" where
  "opened tr = concat (map opened_of tr)"

fun next_on :: "effect \<Rightarrow> nat list" where
  "next_on (Next c r) = [c]"
| "next_on _ = []"

definition next_calls :: "effect list \<Rightarrow> nat list" where
  "next_calls tr = concat (map next_on tr)"

text \<open>The exceptions that the \<open>except\<close> clauses of lines 86-91 name.\<close>

definition handled :: "exn \<Rightarrow> bool" where
  "handled x = (x = StopIteration \<or> x = PyMongoError \<or> x = TweepError)"

text \<open>The keys that lines 19-22 read.\<close>

definition credential_keys :: "string list" where
  "credential_keys = [''consumer_key'', ''consumer_secret'', ''access_token'', ''access_secret'']"

section \<open>A concrete run\<close>

text \<open>
  A small world to run the script in: five credential files, four queries and a
  collection that refuses one document.
\<close>

definition w0 :: world where
  "w0 = \<lparr>trace = [], cursors_opened = 0, insert_calls = 0, randint_calls = 0\<rparr>"

definition keys_json :: pyval where
  "keys_json = PDict [(''Twitter'', PDict [(''consumer_key'', PStr ''ck''),
       (''consumer_secret'', PStr ''cs''), (''access_token'', PStr ''at''),
       (''access_secret'', PStr ''as'')])]"

definition other_json :: pyval where
  "other_json = PDict [(''Twitter'', PDict [(''consumer_key'', PStr ''ck2''),
       (''consumer_secret'', PStr ''cs''), (''access_token'', PStr ''at''),
       (''access_secret'', PStr ''as'')])]"

definition partial_json :: pyval where
  "partial_json = PDict [(''Twitter'', PDict [(''consumer_key'', PStr ''ck''),
       (''consumer_secret'', PStr ''cs'')])]"

definition demo_read_file :: "string \<Rightarrow> exn + string" where
  "demo_read_file p =
     (if p = ''keys.json'' then Inr ''keys''
      else if p = ''other.json'' then Inr ''other''
      else if p = ''partial.json'' then Inr ''partial''
      else if p = ''empty.json'' then Inr ''{}''
      else if p = ''broken.json'' then Inr ''{''
      else Inl (OSError p))"

definition demo_json_loads :: "string \<Rightarrow> exn + pyval" where
  "demo_json_loads s =
     (if s = ''keys'' then Inr keys_json
      else if s = ''other'' then Inr other_json
      else if s = ''partial'' then Inr partial_json
      else if s = ''{}'' then Inr (PDict [])
      else Inl JSONDecodeError)"

definition demo_str_of :: "pyval \<Rightarrow> string" where
  "demo_str_of v =
     (case v of PObject s \<Rightarrow> s
      | PInt n \<Rightarrow> (if n = 60 then ''60'' else ''int'')
      | _ \<Rightarrow> ''object'')"

definition t1 :: tweet where
  "t1 = \<lparr>tweet_text = PStr ''hello'', lang = PStr ''en'',
         created_at = PObject ''2019-05-01 10:00:00'',
         user = \<lparr>name = PStr ''ann'', followers_count = PInt 7, location = PStr ''Milan''\<rparr>,
         retweet_count = PInt 2, favorite_count = PInt 5\<rparr>"

definition t2 :: tweet where
  "t2 = \<lparr>tweet_text = PStr ''boom'', lang = PStr ''it'',
         created_at = PObject ''2019-05-02 11:30:00'',
         user = \<lparr>name = PStr ''bob'', followers_count = PInt 0, location = PNone\<rparr>,
         retweet_count = PInt 0, favorite_count = PInt 1\<rparr>"

definition t3 :: tweet where
  "t3 = \<lparr>tweet_text = PStr ''bye'', lang = PStr ''en'',
         created_at = PObject ''2019-05-03 09:15:00'',
         user = \<lparr>name = PStr ''cat'', followers_count = PInt 12, location = PStr ''Rome''\<rparr>,
         retweet_count = PInt 4, favorite_count = PInt 0\<rparr>"

text \<open>What the successive calls of \<open>next()\<close> give, for each query of the small world.\<close>

definition demo_api_search :: "nat \<Rightarrow> cursor_request \<Rightarrow> nat \<Rightarrow> exn + tweet" where
  "demo_api_search cid req k =
     (if q req = ''q1 -filter:retweets'' then
        (if k = 0 then Inl TweepError else if k = 1 then Inr t1 else Inl StopIteration)
      else if q req = ''q2 -filter:retweets'' then
        (if k = 0 then Inr t1 else if k = 1 then Inr t2 else if k = 2 then Inr t3
         else Inl StopIteration)
      else if q req = ''bad -filter:retweets'' then
        (if k = 0 then Inr t3 else Inl (OtherException ''ConnectionError''))
      else if q req = ''down -filter:retweets'' then Inl TweepError
      else Inl StopIteration)"

definition demo_insert_one :: "collection \<Rightarrow> nat \<Rightarrow> document \<Rightarrow> exn option" where
  "demo_insert_one coll k d =
     (if map_of d ''text'' = Some (PStr ''boom'') then Some PyMongoError else None)"

definition demo_randint :: "nat \<Rightarrow> int \<Rightarrow> int \<Rightarrow> int" where
  "demo_randint k a b = a + (45 * int k) mod (b - a + 1)"

definition demo_env :: env where
  "demo_env = \<lparr>read_file = demo_read_file, json_loads = demo_json_loads, str_of = demo_str_of,
               api_search = demo_api_search, insert_one = demo_insert_one,
               randint = demo_randint\<rparr>"

definition demo_api :: api where
  "demo_api = \<lparr>consumer_key = PStr ''ck'', consumer_secret = PStr ''cs'',
               access_token = PStr ''at'', access_secret = PStr ''as'',
               wait_on_rate_limit = True, wait_on_rate_limit_notify = True,
               retry_count = 1000, retry_delay = 60\<rparr>"

definition demo_collection :: collection where
  "demo_collection = \<lparr>host = ''localhost'', port = 27017,
                      database = ''dm_project'', coll_name = ''twitter''\<rparr>"

text \<open>The cursors opened, the calls of \<open>randint\<close> and the sleeps of a trace, in order.\<close>

fun on_timeline :: "effect \<Rightarrow> bool" where
  "on_timeline (CursorOpened c r) = True"
| "on_timeline (Randint a b r) = True"
| "on_timeline (Sleep n) = True"
| "on_timeline _ = False"

definition timeline :: "effect list \<Rightarrow> effect list" where
  "timeline tr = filter on_timeline tr"

text \<open>What the calls of \<open>randint\<close> returned, in order.\<close>

fun randint_of :: "effect \<Rightarrow> int list" where
  "randint_of (Randint a b r) = [r]"
| "randint_of _ = []"

definition randints :: "effect list \<Rightarrow> int list" where
  "randints tr = concat (map randint_of tr)"

section \<open>What the specification says, as functions\<close>

text \<open>
  The request of section 4.3: the query with the retweet-exclusion modifier appended, the
  date window, the result order "mixed", and the limit.
\<close>

definition spec_request :: "api \<Rightarrow> string \<Rightarrow> string \<Rightarrow> string \<Rightarrow> int \<Rightarrow> cursor_request" where
  "spec_request a query since_date until_date limit =
     \<lparr>method_of = a, q = query @ '' -filter:retweets'', since = since_date,
      until = until_date, result_type = ''mixed'', items = limit\<rparr>"

text \<open>
  The backoff of section 4.3 after \<open>m\<close> rate-limit signals, for a counter that starts at
  \<open>b\<close>: signal, sleep of \<open>60 \<times> b\<close>, signal, sleep of \<open>60 \<times> (b + 1)\<close>, and so on.
\<close>

definition spec_backoff :: "int \<Rightarrow> nat \<Rightarrow> int option list" where
  "spec_backoff b m = concat (map (\<lambda>i. [None, Some (60 * (b + int i))]) [0..<m])"

definition spec_backoff_sleeps :: "int \<Rightarrow> nat \<Rightarrow> effect list" where
  "spec_backoff_sleeps b m = map (\<lambda>i. Sleep (60 * (b + int i))) [0..<m]"

text \<open>
  What section 4.3 has the loop do for one fetched item \<open>t\<close> when the write is the
  \<open>k\<close>-th of the run: fetch, log, write, and log the error if the write failed.
\<close>

definition spec_item :: "env \<Rightarrow> string \<Rightarrow> collection \<Rightarrow> nat \<Rightarrow> nat \<Rightarrow> tweet \<Rightarrow> effect list" where
  "spec_item e query coll cid k t =
     (let d = filtered_tweet query t; r = insert_one e coll k d
      in [Next cid (Inr t),
          Log INFO (''Query: '' @ query @ '', Tweet_date: '' @ format_value e (created_at t)) None,
          InsertOne coll d r]
         @ (if r = None then [] else [Log ERROR ''Error on writing on MongoDB'' r]))"

fun spec_items :: "env \<Rightarrow> string \<Rightarrow> collection \<Rightarrow> nat \<Rightarrow> nat \<Rightarrow> tweet list \<Rightarrow> effect list" where
  "spec_items e query coll cid k [] = []"
| "spec_items e query coll cid k (t # ts) =
     spec_item e query coll cid k t @ spec_items e query coll cid (Suc k) ts"

text \<open>
  The timeline of section 4.4 for a list of queries, each with the number of rate-limit
  signals its loop met: for each query in order, the cursor is opened, the loop backs
  off, and then the driver sleeps what \<open>randint(30, 120)\<close> gave. \<open>co\<close> and \<open>rc\<close> count
  the cursors opened and the calls of \<open>randint\<close> so far.
\<close>

fun spec_timeline ::
  "env \<Rightarrow> api \<Rightarrow> string \<Rightarrow> string \<Rightarrow> nat \<Rightarrow> nat \<Rightarrow> (string \<times> nat) list \<Rightarrow> effect list" where
  "spec_timeline e a since_date until_date co rc [] = []"
| "spec_timeline e a since_date until_date co rc ((query, m) # rest) =
     CursorOpened co (spec_request a query since_date until_date 200)
       # spec_backoff_sleeps 1 m
       @ [Randint 30 120 (randint e rc 30 120), Sleep (randint e rc 30 120)]
       @ spec_timeline e a since_date until_date (Suc co) (Suc rc) rest"

section \<open>Properties of load_twitter_credentials\<close>

lemma twitter_field_found:
  "map_of tops ''Twitter'' = Some (PDict kvs) \<Longrightarrow> map_of kvs k = Some v \<Longrightarrow>
   twitter_field (PDict tops) k = Inr v"
  by (simp add: twitter_field_def getitem_def)

lemma twitter_field_missing:
  "map_of tops ''Twitter'' = Some (PDict kvs) \<Longrightarrow> map_of kvs k = None \<Longrightarrow>
   twitter_field (PDict tops) k = Inl (KeyError k)"
  by (simp add: twitter_field_def getitem_def)

lemma load_field_error:
  assumes "read_file e f = Inr s" "json_loads e s = Inr j"
    and "k \<in> set credential_keys" "twitter_field j k = Inl x"
  shows "\<exists>k' x'. k' \<in> set credential_keys \<and> twitter_field j k' = Inl x'
           \<and> load_twitter_credentials e f w = (Inl x', w)"
  using assms
  by (auto simp: load_twitter_credentials_def credential_keys_def split: sum.splits)

lemma load_success_log:
  assumes "load_twitter_credentials e f w = (Inr (ck, cs, at, as), w')"
  shows "w' = logging DEBUG (format_value e ck @ ''-'' @ format_value e cs @ ''-''
                             @ format_value e at @ ''-'' @ format_value e as) w"
  using assms by (auto simp: load_twitter_credentials_def split: sum.splits)

lemma demo_env_sel [simp]:
  "read_file demo_env = demo_read_file" "json_loads demo_env = demo_json_loads"
  "str_of demo_env = demo_str_of" "api_search demo_env = demo_api_search"
  "insert_one demo_env = demo_insert_one" "randint demo_env = demo_randint"
  by (simp_all add: demo_env_def)

text \<open>
  C5. When the file can be read and parsed and the object under its key \<open>Twitter\<close> has
  the four fields, \<open>load_twitter_credentials\<close> returns their values in the order consumer
  key, consumer secret, access token, access secret. When the file cannot be read, or its
  text cannot be parsed, the exception of \<open>open\<close> or of \<open>json.loads\<close> is the result; when
  the key \<open>Twitter\<close> or one of the four fields is missing, a \<open>KeyError\<close> for a missing key
  is the result. In each failure nothing is logged and nothing is caught.
\<close>

theorem load_twitter_credentials_result:
  "(read_file e f = Inr s \<and> json_loads e s = Inr (PDict tops)
      \<and> map_of tops ''Twitter'' = Some (PDict kvs)
      \<and> map_of kvs ''consumer_key'' = Some ck \<and> map_of kvs ''consumer_secret'' = Some cs
      \<and> map_of kvs ''access_token'' = Some at \<and> map_of kvs ''access_secret'' = Some as
    \<longrightarrow> fst (load_twitter_credentials e f w) = Inr (ck, cs, at, as))
   \<and> (read_file e f = Inl x \<longrightarrow> load_twitter_credentials e f w = (Inl x, w))
   \<and> (read_file e f = Inr s \<and> json_loads e s = Inl x
    \<longrightarrow> load_twitter_credentials e f w = (Inl x, w))
   \<and> (read_file e f = Inr s \<and> json_loads e s = Inr (PDict tops) \<and> map_of tops ''Twitter'' = None
    \<longrightarrow> load_twitter_credentials e f w = (Inl (KeyError ''Twitter''), w))
   \<and> (read_file e f = Inr s \<and> json_loads e s = Inr (PDict tops)
      \<and> map_of tops ''Twitter'' = Some (PDict kvs)
      \<and> k \<in> set credential_keys \<and> map_of kvs k = None
    \<longrightarrow> (\<exists>k'. k' \<in> set credential_keys \<and> map_of kvs k' = None
          \<and> load_twitter_credentials e f w = (Inl (KeyError k'), w)))"
proof (intro conjI impI)
  assume "read_file e f = Inr s \<and> json_loads e s = Inr (PDict tops)
      \<and> map_of tops ''Twitter'' = Some (PDict kvs)
      \<and> map_of kvs ''consumer_key'' = Some ck \<and> map_of kvs ''consumer_secret'' = Some cs
      \<and> map_of kvs ''access_token'' = Some at \<and> map_of kvs ''access_secret'' = Some as"
  then show "fst (load_twitter_credentials e f w) = Inr (ck, cs, at, as)"
    by (simp add: load_twitter_credentials_def twitter_field_found)
next
  assume "read_file e f = Inl x"
  then show "load_twitter_credentials e f w = (Inl x, w)"
    by (simp add: load_twitter_credentials_def)
next
  assume "read_file e f = Inr s \<and> json_loads e s = Inl x"
  then show "load_twitter_credentials e f w = (Inl x, w)"
    by (simp add: load_twitter_credentials_def)
next
  assume "read_file e f = Inr s \<and> json_loads e s = Inr (PDict tops)
      \<and> map_of tops ''Twitter'' = None"
  then show "load_twitter_credentials e f w = (Inl (KeyError ''Twitter''), w)"
    by (simp add: load_twitter_credentials_def twitter_field_def getitem_def)
next
  assume a: "read_file e f = Inr s \<and> json_loads e s = Inr (PDict tops)
      \<and> map_of tops ''Twitter'' = Some (PDict kvs)
      \<and> k \<in> set credential_keys \<and> map_of kvs k = None"
  then have "twitter_field (PDict tops) k = Inl (KeyError k)"
    by (simp add: twitter_field_missing)
  with a obtain k' x' where k': "k' \<in> set credential_keys"
    "twitter_field (PDict tops) k' = Inl x'"
    "load_twitter_credentials e f w = (Inl x', w)"
    using load_field_error[of e f s "PDict tops" k "KeyError k" w] by blast
  from a k'(2) have "map_of kvs k' = None \<and> x' = KeyError k'"
    by (cases "map_of kvs k'") (auto simp: twitter_field_found twitter_field_missing)
  with k' show "\<exists>k'. k' \<in> set credential_keys \<and> map_of kvs k' = None
          \<and> load_twitter_credentials e f w = (Inl (KeyError k'), w)"
    by blast
qed

lemma demo_files [simp]:
  "demo_read_file ''keys.json'' = Inr ''keys''"
  "demo_read_file ''other.json'' = Inr ''other''"
  "demo_read_file ''partial.json'' = Inr ''partial''"
  "demo_read_file ''empty.json'' = Inr ''{}''"
  "demo_read_file ''broken.json'' = Inr ''{''"
  "demo_read_file ''nothing.json'' = Inl (OSError ''nothing.json'')"
  by (simp_all add: demo_read_file_def)

lemma demo_texts [simp]:
  "demo_json_loads ''keys'' = Inr keys_json"
  "demo_json_loads ''other'' = Inr other_json"
  "demo_json_loads ''partial'' = Inr partial_json"
  "demo_json_loads ''{}'' = Inr (PDict [])"
  "demo_json_loads ''{'' = Inl JSONDecodeError"
  by (simp_all add: demo_json_loads_def)

theorem load_twitter_credentials_result_witness:
  "fst (load_twitter_credentials demo_env ''keys.json'' w0)
     = Inr (PStr ''ck'', PStr ''cs'', PStr ''at'', PStr ''as'')
   \<and> load_twitter_credentials demo_env ''nothing.json'' w0 = (Inl (OSError ''nothing.json''), w0)
   \<and> load_twitter_credentials demo_env ''broken.json'' w0 = (Inl JSONDecodeError, w0)
   \<and> load_twitter_credentials demo_env ''empty.json'' w0 = (Inl (KeyError ''Twitter''), w0)
   \<and> (\<exists>k'. k' \<in> set credential_keys
         \<and> load_twitter_credentials demo_env ''partial.json'' w0 = (Inl (KeyError k'), w0))"
proof (intro conjI)
  let ?kvs = "[(''consumer_key'', PStr ''ck''), (''consumer_secret'', PStr ''cs''),
               (''access_token'', PStr ''at''), (''access_secret'', PStr ''as'')]"
  have "read_file demo_env ''keys.json'' = Inr ''keys''
        \<and> json_loads demo_env ''keys'' = Inr (PDict [(''Twitter'', PDict ?kvs)])
        \<and> map_of [(''Twitter'', PDict ?kvs)] ''Twitter'' = Some (PDict ?kvs)
        \<and> map_of ?kvs ''consumer_key'' = Some (PStr ''ck'')
        \<and> map_of ?kvs ''consumer_secret'' = Some (PStr ''cs'')
        \<and> map_of ?kvs ''access_token'' = Some (PStr ''at'')
        \<and> map_of ?kvs ''access_secret'' = Some (PStr ''as'')"
    by (simp add: keys_json_def)
  with load_twitter_credentials_result[of demo_env "''keys.json''" "''keys''"
        "[(''Twitter'', PDict ?kvs)]" ?kvs "PStr ''ck''" "PStr ''cs''" "PStr ''at''" "PStr ''as''" w0]
  show "fst (load_twitter_credentials demo_env ''keys.json'' w0)
          = Inr (PStr ''ck'', PStr ''cs'', PStr ''at'', PStr ''as'')"
    by blast
next
  have "read_file demo_env ''nothing.json'' = Inl (OSError ''nothing.json'')" by simp
  with load_twitter_credentials_result[of demo_env "''nothing.json''" _ _ _ _ _ _ _ w0
        "OSError ''nothing.json''"]
  show "load_twitter_credentials demo_env ''nothing.json'' w0 = (Inl (OSError ''nothing.json''), w0)"
    by blast
next
  have "read_file demo_env ''broken.json'' = Inr ''{'' \<and> json_loads demo_env ''{'' = Inl JSONDecodeError"
    by simp
  with load_twitter_credentials_result[of demo_env "''broken.json''" "''{''" _ _ _ _ _ _ w0
        JSONDecodeError]
  show "load_twitter_credentials demo_env ''broken.json'' w0 = (Inl JSONDecodeError, w0)"
    by blast
next
  have "read_file demo_env ''empty.json'' = Inr ''{}'' \<and> json_loads demo_env ''{}'' = Inr (PDict [])
        \<and> map_of ([] :: (string \<times> pyval) list) ''Twitter'' = None"
    by simp
  with load_twitter_credentials_result[of demo_env "''empty.json''" "''{}''" "[]" _ _ _ _ _ w0]
  show "load_twitter_credentials demo_env ''empty.json'' w0 = (Inl (KeyError ''Twitter''), w0)"
    by blast
next
  let ?kvs = "[(''consumer_key'', PStr ''ck''), (''consumer_secret'', PStr ''cs'')]"
  have "read_file demo_env ''partial.json'' = Inr ''partial''
        \<and> json_loads demo_env ''partial'' = Inr (PDict [(''Twitter'', PDict ?kvs)])
        \<and> map_of [(''Twitter'', PDict ?kvs)] ''Twitter'' = Some (PDict ?kvs)
        \<and> ''access_token'' \<in> set credential_keys \<and> map_of ?kvs ''access_token'' = None"
    by (simp add: partial_json_def credential_keys_def)
  with load_twitter_credentials_result[of demo_env "''partial.json''" "''partial''"
        "[(''Twitter'', PDict ?kvs)]" ?kvs _ _ _ _ w0 _ "''access_token''"]
  show "\<exists>k'. k' \<in> set credential_keys
         \<and> load_twitter_credentials demo_env ''partial.json'' w0 = (Inl (KeyError k'), w0)"
    by blast
qed

lemma dash_split:
  "CHR ''-'' \<notin> set a \<Longrightarrow> CHR ''-'' \<notin> set a' \<Longrightarrow> a @ CHR ''-'' # r = a' @ CHR ''-'' # r'
   \<Longrightarrow> a = a' \<and> r = r'"
proof (induction a arbitrary: a')
  case Nil
  then show ?case by (cases a') auto
next
  case (Cons x xs)
  then show ?case by (cases a') auto
qed

text \<open>
  C8. When \<open>load_twitter_credentials\<close> returns four strings, what it logs is one line
  at level DEBUG: the four strings joined by \<open>-\<close>. So the log depends on the secrets: of two
  calls from the same world that return different secrets, none of the first three of
  which contains \<open>-\<close>, the logs differ.
\<close>

theorem load_twitter_credentials_logs_secrets:
  "(load_twitter_credentials e f w = (Inr (PStr a, PStr b, PStr c, PStr d), w1)
      \<longrightarrow> emitted w w1 = [Log DEBUG (a @ ''-'' @ b @ ''-'' @ c @ ''-'' @ d) None])
   \<and> (load_twitter_credentials e f w = (Inr (PStr a, PStr b, PStr c, PStr d), w1)
      \<and> load_twitter_credentials e' f' w = (Inr (PStr a', PStr b', PStr c', PStr d'), w2)
      \<and> CHR ''-'' \<notin> set (a @ b @ c @ a' @ b' @ c')
      \<and> (a, b, c, d) \<noteq> (a', b', c', d')
      \<longrightarrow> emitted w w1 \<noteq> emitted w w2)"
proof (intro conjI impI)
  assume "load_twitter_credentials e f w = (Inr (PStr a, PStr b, PStr c, PStr d), w1)"
  from load_success_log[OF this]
  show "emitted w w1 = [Log DEBUG (a @ ''-'' @ b @ ''-'' @ c @ ''-'' @ d) None]"
    by (simp add: emitted_def logging_def emit_def format_value_def)
next
  assume h: "load_twitter_credentials e f w = (Inr (PStr a, PStr b, PStr c, PStr d), w1)
      \<and> load_twitter_credentials e' f' w = (Inr (PStr a', PStr b', PStr c', PStr d'), w2)
      \<and> CHR ''-'' \<notin> set (a @ b @ c @ a' @ b' @ c')
      \<and> (a, b, c, d) \<noteq> (a', b', c', d')"
  then have l1: "emitted w w1 = [Log DEBUG (a @ ''-'' @ b @ ''-'' @ c @ ''-'' @ d) None]"
    and l2: "emitted w w2 = [Log DEBUG (a' @ ''-'' @ b' @ ''-'' @ c' @ ''-'' @ d') None]"
    using load_success_log[of e f w "PStr a" "PStr b" "PStr c" "PStr d" w1]
      load_success_log[of e' f' w "PStr a'" "PStr b'" "PStr c'" "PStr d'" w2]
    by (simp_all add: emitted_def logging_def emit_def format_value_def)
  show "emitted w w1 \<noteq> emitted w w2"
  proof
    assume "emitted w w1 = emitted w w2"
    with l1 l2 have eq: "a @ CHR ''-'' # (b @ CHR ''-'' # (c @ CHR ''-'' # d))
                       = a' @ CHR ''-'' # (b' @ CHR ''-'' # (c' @ CHR ''-'' # d'))" by simp
    from h have nd: "CHR ''-'' \<notin> set a" "CHR ''-'' \<notin> set a'" "CHR ''-'' \<notin> set b"
      "CHR ''-'' \<notin> set b'" "CHR ''-'' \<notin> set c" "CHR ''-'' \<notin> set c'" by auto
    from dash_split[OF nd(1,2) eq] have 1: "a = a'"
      and eq2: "b @ CHR ''-'' # (c @ CHR ''-'' # d) = b' @ CHR ''-'' # (c' @ CHR ''-'' # d')" by auto
    from dash_split[OF nd(3,4) eq2] have 2: "b = b'"
      and eq3: "c @ CHR ''-'' # d = c' @ CHR ''-'' # d'" by auto
    from dash_split[OF nd(5,6) eq3] have "c = c'" "d = d'" by auto
    with 1 2 h show False by simp
  qed
qed

lemma demo_load_keys:
  "load_twitter_credentials demo_env ''keys.json'' w0
     = (Inr (PStr ''ck'', PStr ''cs'', PStr ''at'', PStr ''as''),
        logging DEBUG ''ck-cs-at-as'' w0)"
  by (simp add: load_twitter_credentials_def twitter_field_def getitem_def keys_json_def
      format_value_def)

lemma demo_load_other:
  "load_twitter_credentials demo_env ''other.json'' w0
     = (Inr (PStr ''ck2'', PStr ''cs'', PStr ''at'', PStr ''as''),
        logging DEBUG ''ck2-cs-at-as'' w0)"
  by (simp add: load_twitter_credentials_def twitter_field_def getitem_def other_json_def
      format_value_def)

theorem load_twitter_credentials_logs_secrets_witness:
  "emitted w0 (snd (load_twitter_credentials demo_env ''keys.json'' w0))
     = [Log DEBUG ''ck-cs-at-as'' None]
   \<and> emitted w0 (snd (load_twitter_credentials demo_env ''keys.json'' w0))
     \<noteq> emitted w0 (snd (load_twitter_credentials demo_env ''other.json'' w0))"
proof -
  note inst = load_twitter_credentials_logs_secrets[of demo_env "''keys.json''" w0
        "''ck''" "''cs''" "''at''" "''as''" "logging DEBUG ''ck-cs-at-as'' w0"
        demo_env "''other.json''" "''ck2''" "''cs''" "''at''" "''as''"
        "logging DEBUG ''ck2-cs-at-as'' w0"]
  have h: "CHR ''-'' \<notin> set (''ck'' @ ''cs'' @ ''at'' @ ''ck2'' @ ''cs'' @ ''at'')
        \<and> (''ck'', ''cs'', ''at'', ''as'') \<noteq> (''ck2'', ''cs'', ''at'', ''as'')"
    by simp
  from inst demo_load_keys
  have A: "emitted w0 (logging DEBUG ''ck-cs-at-as'' w0) = [Log DEBUG ''ck-cs-at-as'' None]"
    by simp
  from inst demo_load_keys demo_load_other h
  have B: "emitted w0 (logging DEBUG ''ck-cs-at-as'' w0)
           \<noteq> emitted w0 (logging DEBUG ''ck2-cs-at-as'' w0)"
    by blast
  from A B show ?thesis
    unfolding demo_load_keys demo_load_other snd_conv by blast
qed

section \<open>The loop\<close>

lemma fetched_simps [simp]:
  "fetched [] = []" "fetched (x # xs) = item_of x @ fetched xs"
  "fetched (xs @ ys) = fetched xs @ fetched ys"
  by (simp_all add: fetched_def)

lemma writes_simps [simp]:
  "writes [] = []" "writes (x # xs) = write_of x @ writes xs"
  "writes (xs @ ys) = writes xs @ writes ys"
  by (simp_all add: writes_def)

lemma raised_simps [simp]:
  "raised [] = []" "raised (x # xs) = raised_of x @ raised xs"
  "raised (xs @ ys) = raised xs @ raised ys"
  by (simp_all add: raised_def)

lemma rate_limit_signals_simps [simp]:
  "rate_limit_signals [] = 0"
  "rate_limit_signals (xs @ ys) = rate_limit_signals xs + rate_limit_signals ys"
  by (simp_all add: rate_limit_signals_def)

lemma rate_limit_signals_Cons [simp]:
  "rate_limit_signals (x # xs) = length (filter (\<lambda>x. x = TweepError) (raised_of x)) + rate_limit_signals xs"
  by (simp add: rate_limit_signals_def)

lemma backoff_view_simps [simp]:
  "backoff_view [] = []" "backoff_view (x # xs) = backoff_of x @ backoff_view xs"
  "backoff_view (xs @ ys) = backoff_view xs @ backoff_view ys"
  by (simp_all add: backoff_view_def)

lemma opened_simps [simp]:
  "opened [] = []" "opened (x # xs) = opened_of x @ opened xs"
  "opened (xs @ ys) = opened xs @ opened ys"
  by (simp_all add: opened_def)

lemma next_calls_simps [simp]:
  "next_calls [] = []" "next_calls (x # xs) = next_on x @ next_calls xs"
  "next_calls (xs @ ys) = next_calls xs @ next_calls ys"
  by (simp_all add: next_calls_def)

lemma timeline_simps [simp]:
  "timeline [] = []" "timeline (x # xs) = (if on_timeline x then x # timeline xs else timeline xs)"
  "timeline (xs @ ys) = timeline xs @ timeline ys"
  by (simp_all add: timeline_def)

lemma emitted_append:
  "trace w1 = trace w @ xs \<Longrightarrow> emitted w w1 = xs"
  by (simp add: emitted_def)

lemma emitted_self [simp]: "emitted w w = []"
  by (simp add: emitted_def)

lemma map_upt_shift:
  "map (\<lambda>i. f (b + int i)) [0..<Suc m] = f b # map (\<lambda>i. f (b + 1 + int i)) [0..<m]"
proof (induction m)
  case 0
  show ?case by simp
next
  case (Suc m)
  have "map (\<lambda>i. f (b + int i)) [0..<Suc (Suc m)]
          = map (\<lambda>i. f (b + int i)) [0..<Suc m] @ [f (b + int (Suc m))]"
    by simp
  also have "\<dots> = (f b # map (\<lambda>i. f (b + 1 + int i)) [0..<m]) @ [f (b + 1 + int m)]"
    by (simp only: Suc.IH) (simp add: add.commute add.left_commute)
  also have "\<dots> = f b # map (\<lambda>i. f (b + 1 + int i)) [0..<Suc m]"
    by simp
  finally show ?case .
qed

lemma spec_backoff_Suc: "spec_backoff b (Suc m) = [None, Some (60 * b)] @ spec_backoff (b + 1) m"
  unfolding spec_backoff_def
  by (subst map_upt_shift[where f = "\<lambda>x. [None, Some (60 * x)]"]) simp

lemma spec_backoff_0 [simp]: "spec_backoff b 0 = []"
  by (simp add: spec_backoff_def)

lemma spec_backoff_sleeps_Suc:
  "spec_backoff_sleeps b (Suc m) = Sleep (60 * b) # spec_backoff_sleeps (b + 1) m"
  unfolding spec_backoff_sleeps_def
  by (rule map_upt_shift[where f = "\<lambda>x. Sleep (60 * x)"])

lemma spec_backoff_sleeps_0 [simp]: "spec_backoff_sleeps b 0 = []"
  by (simp add: spec_backoff_sleeps_def)

text \<open>Induction over the passes of a loop that ended.\<close>

lemma while_true_induct [consumes 1, case_names Break Propagate Continue]:
  assumes run: "while_true e query coll c b w = Some res"
    and brk: "\<And>c b w c1 b1 w1. loop_body e query coll c b w = (Break, c1, b1, w1)
                \<Longrightarrow> P c b w (Inr (), w1)"
    and prp: "\<And>c b w x c1 b1 w1. loop_body e query coll c b w = (Propagate x, c1, b1, w1)
                \<Longrightarrow> P c b w (Inl x, w1)"
    and cont: "\<And>c b w c1 b1 w1 res. loop_body e query coll c b w = (Continue, c1, b1, w1)
                \<Longrightarrow> P c1 b1 w1 res \<Longrightarrow> P c b w res"
  shows "P c b w res"
proof -
  let ?Q = "\<lambda>e' q' coll' c b w res. e' = e \<and> q' = query \<and> coll' = coll \<longrightarrow> P c b w res"
  have "?Q e query coll c b w res"
  proof (rule while_true.raw_induct[where P = ?Q, OF _ run])
    fix wt e' q' coll' c b w res
    assume IH: "\<And>e' q' coll' c b w y. wt e' q' coll' c b w = Some y \<Longrightarrow> ?Q e' q' coll' c b w y"
      and step: "(case loop_body e' q' coll' c b w of
                   (Continue, c1, b1, w1) \<Rightarrow> wt e' q' coll' c1 b1 w1
                 | (Break, c1, b1, w1) \<Rightarrow> Some (Inr (), w1)
                 | (Propagate x, c1, b1, w1) \<Rightarrow> Some (Inl x, w1)) = Some res"
    show "?Q e' q' coll' c b w res"
    proof (intro impI, elim conjE)
      assume eq: "e' = e" "q' = query" "coll' = coll"
      obtain k c1 b1 w1 where lb: "loop_body e query coll c b w = (k, c1, b1, w1)"
        by (cases "loop_body e query coll c b w") auto
      show "P c b w res"
      proof (cases k)
        case Continue
        with step lb eq have "wt e query coll c1 b1 w1 = Some res" by simp
        from IH[OF this] have "P c1 b1 w1 res" by simp
        with cont lb Continue show ?thesis by blast
      next
        case Break
        with step lb eq have "res = (Inr (), w1)" by simp
        with brk lb Break show ?thesis by blast
      next
        case (Propagate x)
        with step lb eq have "res = (Inl x, w1)" by simp
        with prp lb Propagate show ?thesis by blast
      qed
    qed
  qed
  then show ?thesis by simp
qed

lemmas body_defs = loop_body_def try_body_def tweets_next_def insert_one_call_def handler_def
  logging_def sleep_def emit_def Let_def

text \<open>One pass: what it leaves alone.\<close>

lemma loop_body_frame:
  assumes "loop_body e query coll c b w = (k, c1, b1, w1)"
  shows "\<exists>it. trace w1 = trace w @ it \<and> it \<noteq> []
           \<and> c1 = c\<lparr>position := Suc (position c)\<rparr>
           \<and> cursors_opened w1 = cursors_opened w \<and> randint_calls w1 = randint_calls w
           \<and> opened it = [] \<and> next_calls it = [cursor_id c]"
  using assms by (auto simp: body_defs split: sum.splits option.splits exn.splits prod.splits)

text \<open>One pass: an item fetched is written once, as its projection.\<close>

lemma loop_body_writes:
  assumes "loop_body e query coll c b w = (k, c1, b1, w1)"
  shows "\<exists>it. trace w1 = trace w @ it
           \<and> map (\<lambda>(c, d, x). (c, d)) (writes it)
               = map (\<lambda>t. (coll, filtered_tweet query t)) (fetched it)
           \<and> insert_calls w1 = insert_calls w + length (writes it)"
  using assms by (auto simp: body_defs split: sum.splits option.splits exn.splits prod.splits)

text \<open>One pass: a rate-limit signal is followed by a sleep and moves the counter.\<close>

lemma loop_body_backoff:
  assumes "loop_body e query coll c b w = (k, c1, b1, w1)"
  shows "\<exists>it. trace w1 = trace w @ it
           \<and> rate_limit_signals it \<le> 1
           \<and> backoff_view it = spec_backoff b (rate_limit_signals it)
           \<and> timeline it = spec_backoff_sleeps b (rate_limit_signals it)
           \<and> b1 = b + int (rate_limit_signals it)"
  using assms
  by (auto simp: body_defs spec_backoff_def spec_backoff_sleeps_def
      split: sum.splits option.splits exn.splits prod.splits)

text \<open>One pass: an exception that no clause names ends it, and only such an exception.\<close>

lemma loop_body_raised:
  assumes "loop_body e query coll c b w = (k, c1, b1, w1)"
  shows "\<exists>it. trace w1 = trace w @ it \<and> it \<noteq> []
           \<and> (case k of
                 Propagate x \<Rightarrow> \<not> handled x \<and> raised_of (last it) = [x]
                                \<and> filter (\<lambda>x. \<not> handled x) (raised it) = [x]
               | _ \<Rightarrow> filter (\<lambda>x. \<not> handled x) (raised it) = [])"
  using assms
  by (auto simp: body_defs handled_def split: sum.splits option.splits exn.splits prod.splits)

lemma spec_backoff_add:
  "spec_backoff b (m + n) = spec_backoff b m @ spec_backoff (b + int m) n"
proof (induction m arbitrary: b)
  case 0
  show ?case by simp
next
  case (Suc m)
  have "spec_backoff b (Suc m + n) = [None, Some (60 * b)] @ spec_backoff (b + 1) (m + n)"
    by (simp add: spec_backoff_Suc)
  also have "\<dots> = [None, Some (60 * b)] @ spec_backoff (b + 1) m @ spec_backoff (b + 1 + int m) n"
    by (simp only: Suc.IH)
  also have "\<dots> = spec_backoff b (Suc m) @ spec_backoff (b + int (Suc m)) n"
    by (simp add: spec_backoff_Suc add.commute add.left_commute)
  finally show ?case .
qed

lemma spec_backoff_sleeps_add:
  "spec_backoff_sleeps b (m + n) = spec_backoff_sleeps b m @ spec_backoff_sleeps (b + int m) n"
proof (induction m arbitrary: b)
  case 0
  show ?case by simp
next
  case (Suc m)
  have "spec_backoff_sleeps b (Suc m + n) = Sleep (60 * b) # spec_backoff_sleeps (b + 1) (m + n)"
    by (simp add: spec_backoff_sleeps_Suc)
  also have "\<dots> = Sleep (60 * b) # spec_backoff_sleeps (b + 1) m
                      @ spec_backoff_sleeps (b + 1 + int m) n"
    by (simp only: Suc.IH)
  also have "\<dots> = spec_backoff_sleeps b (Suc m) @ spec_backoff_sleeps (b + int (Suc m)) n"
    by (simp add: spec_backoff_sleeps_Suc add.commute add.left_commute)
  finally show ?case .
qed

text \<open>A loop that ended: what it left alone.\<close>

lemma while_true_frame:
  assumes "while_true e query coll c b w = Some res"
  shows "\<exists>new. trace (snd res) = trace w @ new \<and> new \<noteq> []
           \<and> cursors_opened (snd res) = cursors_opened w
           \<and> randint_calls (snd res) = randint_calls w
           \<and> opened new = [] \<and> set (next_calls new) \<subseteq> {cursor_id c}"
  using assms
proof (induction rule: while_true_induct)
  case (Break c b w c1 b1 w1)
  from loop_body_frame[OF this] show ?case by auto
next
  case (Propagate c b w x c1 b1 w1)
  from loop_body_frame[OF this] show ?case by auto
next
  case (Continue c b w c1 b1 w1 res)
  from loop_body_frame[OF Continue(1)] Continue(2) show ?case by auto
qed

lemma while_true_writes:
  assumes "while_true e query coll c b w = Some res"
  shows "\<exists>new. trace (snd res) = trace w @ new
           \<and> map (\<lambda>(c, d, x). (c, d)) (writes new)
               = map (\<lambda>t. (coll, filtered_tweet query t)) (fetched new)
           \<and> insert_calls (snd res) = insert_calls w + length (writes new)"
  using assms
proof (induction rule: while_true_induct)
  case (Break c b w c1 b1 w1)
  from loop_body_writes[OF this] show ?case by auto
next
  case (Propagate c b w x c1 b1 w1)
  from loop_body_writes[OF this] show ?case by auto
next
  case (Continue c b w c1 b1 w1 res)
  from loop_body_writes[OF Continue(1)] Continue(2) show ?case by auto
qed

lemma while_true_backoff:
  assumes "while_true e query coll c b w = Some res"
  shows "\<exists>new. trace (snd res) = trace w @ new
           \<and> backoff_view new = spec_backoff b (rate_limit_signals new)
           \<and> timeline new = spec_backoff_sleeps b (rate_limit_signals new)"
  using assms
proof (induction rule: while_true_induct)
  case (Break c b w c1 b1 w1)
  from loop_body_backoff[OF this] show ?case by auto
next
  case (Propagate c b w x c1 b1 w1)
  from loop_body_backoff[OF this] show ?case by auto
next
  case (Continue c b w c1 b1 w1 res)
  from loop_body_backoff[OF Continue(1)] obtain it where it: "trace w1 = trace w @ it"
    "backoff_view it = spec_backoff b (rate_limit_signals it)"
    "timeline it = spec_backoff_sleeps b (rate_limit_signals it)"
    "b1 = b + int (rate_limit_signals it)" by blast
  from Continue(2) obtain new where new: "trace (snd res) = trace w1 @ new"
    "backoff_view new = spec_backoff b1 (rate_limit_signals new)"
    "timeline new = spec_backoff_sleeps b1 (rate_limit_signals new)" by blast
  have "trace (snd res) = trace w @ (it @ new)" using it(1) new(1) by simp
  moreover have "backoff_view (it @ new) = spec_backoff b (rate_limit_signals (it @ new))"
    using it new by (simp add: spec_backoff_add)
  moreover have "timeline (it @ new) = spec_backoff_sleeps b (rate_limit_signals (it @ new))"
    using it new by (simp add: spec_backoff_sleeps_add)
  ultimately show ?case by blast
qed

lemma while_true_raised:
  assumes "while_true e query coll c b w = Some res"
  shows "\<exists>new. trace (snd res) = trace w @ new \<and> new \<noteq> []
           \<and> filter (\<lambda>x. \<not> handled x) (raised new)
               = (case fst res of Inl x \<Rightarrow> [x] | Inr u \<Rightarrow> [])
           \<and> (\<forall>x. fst res = Inl x \<longrightarrow> \<not> handled x \<and> raised_of (last new) = [x])"
  using assms
proof (induction rule: while_true_induct)
  case (Break c b w c1 b1 w1)
  from loop_body_raised[OF this] show ?case by auto
next
  case (Propagate c b w x c1 b1 w1)
  from loop_body_raised[OF this] show ?case by auto
next
  case (Continue c b w c1 b1 w1 res)
  from loop_body_raised[OF Continue(1)] obtain it where it: "trace w1 = trace w @ it"
    "filter (\<lambda>x. \<not> handled x) (raised it) = []" by auto
  from Continue(2) obtain new where new: "trace (snd res) = trace w1 @ new" "new \<noteq> []"
    "filter (\<lambda>x. \<not> handled x) (raised new) = (case fst res of Inl x \<Rightarrow> [x] | Inr u \<Rightarrow> [])"
    "\<forall>x. fst res = Inl x \<longrightarrow> \<not> handled x \<and> raised_of (last new) = [x]" by blast
  have "trace (snd res) = trace w @ (it @ new)" using it(1) new(1) by simp
  moreover have "it @ new \<noteq> []" using new(2) by simp
  moreover have "filter (\<lambda>x. \<not> handled x) (raised (it @ new))
                   = (case fst res of Inl x \<Rightarrow> [x] | Inr u \<Rightarrow> [])"
    using it(2) new(3) by simp
  moreover have "\<forall>x. fst res = Inl x \<longrightarrow> \<not> handled x \<and> raised_of (last (it @ new)) = [x]"
    using new(2,4) by simp
  ultimately show ?case by blast
qed

text \<open>All of it in one statement, about the effects of the loop.\<close>

lemma while_true_effects:
  assumes run: "while_true e query coll c b w = Some (r, w')"
  shows "trace w' = trace w @ emitted w w' \<and> emitted w w' \<noteq> []
         \<and> cursors_opened w' = cursors_opened w \<and> randint_calls w' = randint_calls w
         \<and> opened (emitted w w') = [] \<and> set (next_calls (emitted w w')) \<subseteq> {cursor_id c}
         \<and> map (\<lambda>(c, d, x). (c, d)) (writes (emitted w w'))
             = map (\<lambda>t. (coll, filtered_tweet query t)) (fetched (emitted w w'))
         \<and> insert_calls w' = insert_calls w + length (writes (emitted w w'))
         \<and> backoff_view (emitted w w') = spec_backoff b (rate_limit_signals (emitted w w'))
         \<and> timeline (emitted w w') = spec_backoff_sleeps b (rate_limit_signals (emitted w w'))
         \<and> filter (\<lambda>x. \<not> handled x) (raised (emitted w w'))
             = (case r of Inl x \<Rightarrow> [x] | Inr u \<Rightarrow> [])
         \<and> (\<forall>x. r = Inl x \<longrightarrow> \<not> handled x \<and> raised_of (last (emitted w w')) = [x])"
proof -
  from while_true_frame[OF run] obtain n1 where n1: "trace w' = trace w @ n1" "n1 \<noteq> []"
    "cursors_opened w' = cursors_opened w" "randint_calls w' = randint_calls w"
    "opened n1 = []" "set (next_calls n1) \<subseteq> {cursor_id c}" by auto
  from n1(1) have e: "emitted w w' = n1" by (rule emitted_append)
  from while_true_writes[OF run] obtain n2 where n2: "trace w' = trace w @ n2"
    "map (\<lambda>(c, d, x). (c, d)) (writes n2) = map (\<lambda>t. (coll, filtered_tweet query t)) (fetched n2)"
    "insert_calls w' = insert_calls w + length (writes n2)" by auto
  from while_true_backoff[OF run] obtain n3 where n3: "trace w' = trace w @ n3"
    "backoff_view n3 = spec_backoff b (rate_limit_signals n3)"
    "timeline n3 = spec_backoff_sleeps b (rate_limit_signals n3)" by auto
  from while_true_raised[OF run] obtain n4 where n4: "trace w' = trace w @ n4"
    "filter (\<lambda>x. \<not> handled x) (raised n4) = (case r of Inl x \<Rightarrow> [x] | Inr u \<Rightarrow> [])"
    "\<forall>x. r = Inl x \<longrightarrow> \<not> handled x \<and> raised_of (last n4) = [x]" by auto
  from n1(1) n2(1) n3(1) n4(1) have "n2 = n1" "n3 = n1" "n4 = n1" by simp_all
  with n1 n2 n3 n4 e show ?thesis by simp
qed

section \<open>One call of collect_and_store_tweets_from_query\<close>

lemma collect_unfold:
  assumes run: "collect_and_store_tweets_from_query e a query since_date until_date coll n w
                  = Some (r, w')"
  defines "req \<equiv> spec_request a query since_date until_date (case n of None \<Rightarrow> 200 | Some n \<Rightarrow> n)"
  defines "w2 \<equiv> w\<lparr>trace := trace w @ [Log INFO ''collect_and_store_tweets_from_query >>>'' None,
                                         CursorOpened (cursors_opened w) req],
                  cursors_opened := Suc (cursors_opened w)\<rparr>"
  shows "\<exists>w3. while_true e query coll
                 \<lparr>cursor_id = cursors_opened w, request = req, position = 0\<rparr> 1 w2 = Some (r, w3)
              \<and> w' = (case r of Inl x \<Rightarrow> w3
                       | Inr u \<Rightarrow> logging INFO ''collect_and_store_tweets_from_query <<<'' w3)"
proof -
  let ?c = "\<lparr>cursor_id = cursors_opened w, request = req, position = 0\<rparr>"
  have oc: "open_cursor a query since_date until_date (case n of None \<Rightarrow> 200 | Some n \<Rightarrow> n)
              (logging INFO ''collect_and_store_tweets_from_query >>>'' w) = (?c, w2)"
    by (simp add: open_cursor_def req_def w2_def spec_request_def logging_def emit_def Let_def)
  from run oc obtain r3 w3 where wt: "while_true e query coll ?c 1 w2 = Some (r3, w3)"
    by (cases "while_true e query coll ?c 1 w2")
       (auto simp: collect_and_store_tweets_from_query_def Let_def)
  with run oc have "r = r3 \<and> w' = (case r of Inl x \<Rightarrow> w3
                       | Inr u \<Rightarrow> logging INFO ''collect_and_store_tweets_from_query <<<'' w3)"
    by (cases r3) (auto simp: collect_and_store_tweets_from_query_def Let_def)
  with wt show ?thesis by auto
qed

lemma collect_effects:
  assumes run: "collect_and_store_tweets_from_query e a query since_date until_date coll n w
                  = Some (r, w')"
  defines "req \<equiv> spec_request a query since_date until_date (case n of None \<Rightarrow> 200 | Some n \<Rightarrow> n)"
  shows "trace w' = trace w @ emitted w w' \<and> emitted w w' \<noteq> []
         \<and> cursors_opened w' = Suc (cursors_opened w) \<and> randint_calls w' = randint_calls w
         \<and> opened (emitted w w') = [(cursors_opened w, req)]
         \<and> set (next_calls (emitted w w')) \<subseteq> {cursors_opened w}
         \<and> map (\<lambda>(c, d, x). (c, d)) (writes (emitted w w'))
             = map (\<lambda>t. (coll, filtered_tweet query t)) (fetched (emitted w w'))
         \<and> insert_calls w' = insert_calls w + length (writes (emitted w w'))
         \<and> backoff_view (emitted w w') = spec_backoff 1 (rate_limit_signals (emitted w w'))
         \<and> timeline (emitted w w')
             = CursorOpened (cursors_opened w) req
                 # spec_backoff_sleeps 1 (rate_limit_signals (emitted w w'))
         \<and> filter (\<lambda>x. \<not> handled x) (raised (emitted w w'))
             = (case r of Inl x \<Rightarrow> [x] | Inr u \<Rightarrow> [])
         \<and> (\<forall>x. r = Inl x \<longrightarrow> \<not> handled x \<and> raised_of (last (emitted w w')) = [x])"
proof -
  let ?c = "\<lparr>cursor_id = cursors_opened w, request = req, position = 0\<rparr>"
  let ?pre = "[Log INFO ''collect_and_store_tweets_from_query >>>'' None,
               CursorOpened (cursors_opened w) req]"
  let ?w2 = "w\<lparr>trace := trace w @ ?pre, cursors_opened := Suc (cursors_opened w)\<rparr>"
  from collect_unfold[OF run] obtain w3 where
    wt: "while_true e query coll ?c 1 ?w2 = Some (r, w3)"
    and w': "w' = (case r of Inl x \<Rightarrow> w3
                   | Inr u \<Rightarrow> logging INFO ''collect_and_store_tweets_from_query <<<'' w3)"
    unfolding req_def by blast
  define lp where "lp = emitted ?w2 w3"
  define post where "post = (case r of Inl x \<Rightarrow> []
                     | Inr u \<Rightarrow> [Log INFO ''collect_and_store_tweets_from_query <<<'' None])"
  note L = while_true_effects[OF wt, folded lp_def]
  from L have t3: "trace w3 = trace w @ ?pre @ lp" by simp
  have tw': "trace w' = trace w @ (?pre @ lp @ post)"
    using w' t3 by (cases r) (simp_all add: post_def logging_def emit_def)
  then have em: "emitted w w' = ?pre @ lp @ post" by (rule emitted_append)
  have post_simps: "opened post = []" "next_calls post = []" "writes post = []"
    "fetched post = []" "rate_limit_signals post = 0" "backoff_view post = []"
    "timeline post = []" "raised post = []"
    by (cases r; simp add: post_def)+
  have fr: "cursors_opened w' = Suc (cursors_opened w)" "randint_calls w' = randint_calls w"
    "insert_calls w' = insert_calls w + length (writes lp)"
    using w' L by (cases r; simp add: logging_def emit_def)+
  have lst: "\<forall>x. r = Inl x \<longrightarrow> \<not> handled x \<and> raised_of (last (?pre @ lp @ post)) = [x]"
    using L by (auto simp: post_def)
  show ?thesis
    unfolding em using tw' fr lst L post_simps by simp
qed

section \<open>Runs that can be written down\<close>

lemma while_true_Continue:
  "loop_body e query coll c b w = (Continue, c1, b1, w1)
   \<Longrightarrow> while_true e query coll c b w = while_true e query coll c1 b1 w1"
  by (subst while_true.simps) simp

lemma while_true_Break:
  "loop_body e query coll c b w = (Break, c1, b1, w1)
   \<Longrightarrow> while_true e query coll c b w = Some (Inr (), w1)"
  by (subst while_true.simps) simp

lemma while_true_Propagate:
  "loop_body e query coll c b w = (Propagate x, c1, b1, w1)
   \<Longrightarrow> while_true e query coll c b w = Some (Inl x, w1)"
  by (subst while_true.simps) simp

text \<open>The pass that meets the end of the sequence.\<close>

lemma loop_body_stop:
  assumes "api_search e (cursor_id c) (request c) (position c) = Inl StopIteration"
  shows "loop_body e query coll c b w
           = (Break, c\<lparr>position := Suc (position c)\<rparr>, b,
              w\<lparr>trace := trace w @ [Next (cursor_id c) (Inl StopIteration),
                   Log INFO (''Finished collecting and storing tweets for '' @ query) None]\<rparr>)"
  using assms by (simp add: body_defs)

text \<open>The pass that fetches an item and writes it, or fails to write it.\<close>

lemma loop_body_item:
  assumes "api_search e (cursor_id c) (request c) (position c) = Inr t"
    and "insert_one e coll (insert_calls w) (filtered_tweet query t) \<in> {None, Some PyMongoError}"
  shows "loop_body e query coll c b w
           = (Continue, c\<lparr>position := Suc (position c)\<rparr>, b,
              w\<lparr>trace := trace w @ spec_item e query coll (cursor_id c) (insert_calls w) t,
                insert_calls := Suc (insert_calls w)\<rparr>)"
  using assms by (auto simp: body_defs spec_item_def)

text \<open>The pass that meets a rate-limit signal.\<close>

lemma loop_body_rate_limit:
  assumes "api_search e (cursor_id c) (request c) (position c) = Inl TweepError"
  shows "loop_body e query coll c b w
           = (Continue, c\<lparr>position := Suc (position c)\<rparr>, b + 1,
              w\<lparr>trace := trace w @ [Next (cursor_id c) (Inl TweepError),
                   Log INFO (''Reached Tweet limits, waiting for ''
                             @ format_value e (PInt (60 * b)) @ '' seconds'') None,
                   Sleep (60 * b)]\<rparr>)"
  using assms by (simp add: body_defs)

text \<open>The pass that meets an exception that no clause names.\<close>

lemma loop_body_unhandled:
  assumes "api_search e (cursor_id c) (request c) (position c) = Inl x" "\<not> handled x"
  shows "loop_body e query coll c b w
           = (Propagate x, c\<lparr>position := Suc (position c)\<rparr>, b,
              w\<lparr>trace := trace w @ [Next (cursor_id c) (Inl x)]\<rparr>)"
  using assms by (cases x) (simp_all add: body_defs handled_def)

lemma while_true_items:
  assumes "\<forall>i<length ts. api_search e (cursor_id c) (request c) (position c + i) = Inr (ts ! i)"
    and "api_search e (cursor_id c) (request c) (position c + length ts) = Inl StopIteration"
    and "\<forall>i<length ts. insert_one e coll (insert_calls w + i) (filtered_tweet query (ts ! i))
                          \<in> {None, Some PyMongoError}"
  shows "while_true e query coll c b w
           = Some (Inr (),
               w\<lparr>trace := trace w @ spec_items e query coll (cursor_id c) (insert_calls w) ts
                     @ [Next (cursor_id c) (Inl StopIteration),
                        Log INFO (''Finished collecting and storing tweets for '' @ query) None],
                 insert_calls := insert_calls w + length ts\<rparr>)"
  using assms
proof (induction ts arbitrary: c w)
  case Nil
  then have "api_search e (cursor_id c) (request c) (position c) = Inl StopIteration" by simp
  from while_true_Break[OF loop_body_stop[OF this]] show ?case by simp
next
  case (Cons t ts)
  let ?c1 = "c\<lparr>position := Suc (position c)\<rparr>"
  let ?w1 = "w\<lparr>trace := trace w @ spec_item e query coll (cursor_id c) (insert_calls w) t,
               insert_calls := Suc (insert_calls w)\<rparr>"
  from Cons.prems(1) have t: "api_search e (cursor_id c) (request c) (position c) = Inr t"
    by force
  from Cons.prems(3) have s: "insert_one e coll (insert_calls w) (filtered_tweet query t)
                                \<in> {None, Some PyMongoError}"
    by force
  have step: "while_true e query coll c b w = while_true e query coll ?c1 b ?w1"
    by (rule while_true_Continue[OF loop_body_item[OF t s]])
  have p1: "\<forall>i<length ts. api_search e (cursor_id ?c1) (request ?c1) (position ?c1 + i)
                            = Inr (ts ! i)"
  proof (intro allI impI)
    fix i assume "i < length ts"
    with Cons.prems(1)[rule_format, of "Suc i"] show
      "api_search e (cursor_id ?c1) (request ?c1) (position ?c1 + i) = Inr (ts ! i)" by simp
  qed
  have p2: "api_search e (cursor_id ?c1) (request ?c1) (position ?c1 + length ts)
              = Inl StopIteration"
    using Cons.prems(2) by simp
  have p3: "\<forall>i<length ts. insert_one e coll (insert_calls ?w1 + i) (filtered_tweet query (ts ! i))
                            \<in> {None, Some PyMongoError}"
  proof (intro allI impI)
    fix i assume "i < length ts"
    with Cons.prems(3)[rule_format, of "Suc i"] show
      "insert_one e coll (insert_calls ?w1 + i) (filtered_tweet query (ts ! i))
         \<in> {None, Some PyMongoError}" by simp
  qed
  from Cons.IH[OF p1 p2 p3] step show ?case by simp
qed

lemma collect_from_loop:
  assumes "while_true e query coll
             \<lparr>cursor_id = cursors_opened w,
              request = spec_request a query since_date until_date
                          (case n of None \<Rightarrow> 200 | Some n \<Rightarrow> n),
              position = 0\<rparr> 1
             (w\<lparr>trace := trace w @ [Log INFO ''collect_and_store_tweets_from_query >>>'' None,
                    CursorOpened (cursors_opened w)
                      (spec_request a query since_date until_date
                         (case n of None \<Rightarrow> 200 | Some n \<Rightarrow> n))],
                cursors_opened := Suc (cursors_opened w)\<rparr>) = res"
  shows "collect_and_store_tweets_from_query e a query since_date until_date coll n w
           = (case res of
                None \<Rightarrow> None
              | Some (Inl x, w3) \<Rightarrow> Some (Inl x, w3)
              | Some (Inr u, w3) \<Rightarrow>
                  Some (Inr (), logging INFO ''collect_and_store_tweets_from_query <<<'' w3))"
  using assms
  by (simp add: collect_and_store_tweets_from_query_def open_cursor_def spec_request_def
      logging_def emit_def Let_def)

lemma fetched_spec_item [simp]: "fetched (spec_item e query coll cid k t) = [t]"
  by (simp add: spec_item_def Let_def)

lemma writes_spec_item [simp]:
  "writes (spec_item e query coll cid k t)
     = [(coll, filtered_tweet query t, insert_one e coll k (filtered_tweet query t))]"
  by (simp add: spec_item_def Let_def)

lemma writes_spec_items:
  "writes (spec_items e query coll cid k ts)
     = map (\<lambda>i. (coll, filtered_tweet query (ts ! i),
                  insert_one e coll (k + i) (filtered_tweet query (ts ! i)))) [0..<length ts]"
proof (induction ts arbitrary: k)
  case Nil
  show ?case by simp
next
  case (Cons t ts)
  show ?case
    by (simp add: Cons.IH map_upt_Suc del: upt_Suc)
qed

lemma fetched_spec_items: "fetched (spec_items e query coll cid k ts) = ts"
  by (induction ts arbitrary: k) simp_all

text \<open>A sequence of items, then its end, and a collection that at worst refuses a write.\<close>

lemma collect_items:
  assumes "\<forall>i<length ts. api_search e (cursors_opened w)
              (spec_request a query since_date until_date (case n of None \<Rightarrow> 200 | Some n \<Rightarrow> n)) i
              = Inr (ts ! i)"
    and "api_search e (cursors_opened w)
              (spec_request a query since_date until_date (case n of None \<Rightarrow> 200 | Some n \<Rightarrow> n))
              (length ts) = Inl StopIteration"
    and "\<forall>i<length ts. insert_one e coll (insert_calls w + i) (filtered_tweet query (ts ! i))
                          \<in> {None, Some PyMongoError}"
  shows "collect_and_store_tweets_from_query e a query since_date until_date coll n w
           = Some (Inr (),
               w\<lparr>trace := trace w
                     @ [Log INFO ''collect_and_store_tweets_from_query >>>'' None,
                        CursorOpened (cursors_opened w)
                          (spec_request a query since_date until_date
                             (case n of None \<Rightarrow> 200 | Some n \<Rightarrow> n))]
                     @ spec_items e query coll (cursors_opened w) (insert_calls w) ts
                     @ [Next (cursors_opened w) (Inl StopIteration),
                        Log INFO (''Finished collecting and storing tweets for '' @ query) None,
                        Log INFO ''collect_and_store_tweets_from_query <<<'' None],
                 cursors_opened := Suc (cursors_opened w),
                 insert_calls := insert_calls w + length ts\<rparr>)"
proof -
  let ?req = "spec_request a query since_date until_date (case n of None \<Rightarrow> 200 | Some n \<Rightarrow> n)"
  let ?c = "\<lparr>cursor_id = cursors_opened w, request = ?req, position = 0\<rparr>"
  let ?w2 = "w\<lparr>trace := trace w @ [Log INFO ''collect_and_store_tweets_from_query >>>'' None,
                    CursorOpened (cursors_opened w) ?req],
                cursors_opened := Suc (cursors_opened w)\<rparr>"
  have "while_true e query coll ?c 1 ?w2
           = Some (Inr (),
               ?w2\<lparr>trace := trace ?w2 @ spec_items e query coll (cursor_id ?c) (insert_calls ?w2) ts
                     @ [Next (cursor_id ?c) (Inl StopIteration),
                        Log INFO (''Finished collecting and storing tweets for '' @ query) None],
                 insert_calls := insert_calls ?w2 + length ts\<rparr>)"
    by (rule while_true_items) (use assms in simp_all)
  from collect_from_loop[OF this] show ?thesis
    by (simp add: logging_def emit_def)
qed

text \<open>An upstream that raises the rate-limit signal at every call: the loop never ends.\<close>

lemma while_true_diverges:
  assumes "\<forall>k. api_search e (cursor_id c) (request c) k = Inl TweepError"
  shows "while_true e query coll c b w = None"
proof (rule ccontr)
  assume "while_true e query coll c b w \<noteq> None"
  then obtain res where run: "while_true e query coll c b w = Some res" by auto
  have "(\<forall>k. api_search e (cursor_id c) (request c) k = Inl TweepError) \<longrightarrow> False"
    using run
  proof (induction rule: while_true_induct)
    case (Break c b w c1 b1 w1)
    show ?case
    proof
      assume "\<forall>k. api_search e (cursor_id c) (request c) k = Inl TweepError"
      then have "api_search e (cursor_id c) (request c) (position c) = Inl TweepError" by simp
      from loop_body_rate_limit[OF this] Break show False by simp
    qed
  next
    case (Propagate c b w x c1 b1 w1)
    show ?case
    proof
      assume "\<forall>k. api_search e (cursor_id c) (request c) k = Inl TweepError"
      then have "api_search e (cursor_id c) (request c) (position c) = Inl TweepError" by simp
      from loop_body_rate_limit[OF this] Propagate show False by simp
    qed
  next
    case (Continue c b w c1 b1 w1 res)
    show ?case
    proof
      assume a: "\<forall>k. api_search e (cursor_id c) (request c) k = Inl TweepError"
      from loop_body_frame[OF Continue(1)] have "c1 = c\<lparr>position := Suc (position c)\<rparr>" by auto
      with a Continue(2) show False by simp
    qed
  qed
  with assms show False by blast
qed

lemma collect_diverges:
  assumes "\<forall>k. api_search e (cursors_opened w)
              (spec_request a query since_date until_date (case n of None \<Rightarrow> 200 | Some n \<Rightarrow> n)) k
              = Inl TweepError"
  shows "collect_and_store_tweets_from_query e a query since_date until_date coll n w = None"
proof -
  let ?req = "spec_request a query since_date until_date (case n of None \<Rightarrow> 200 | Some n \<Rightarrow> n)"
  let ?c = "\<lparr>cursor_id = cursors_opened w, request = ?req, position = 0\<rparr>"
  let ?w2 = "w\<lparr>trace := trace w @ [Log INFO ''collect_and_store_tweets_from_query >>>'' None,
                    CursorOpened (cursors_opened w) ?req],
                cursors_opened := Suc (cursors_opened w)\<rparr>"
  have "while_true e query coll ?c 1 ?w2 = None"
    by (rule while_true_diverges) (use assms in simp)
  from collect_from_loop[OF this] show ?thesis by simp
qed

section \<open>The runs of the small world\<close>

lemma demo_q2_items:
  "\<forall>i<length [t1, t2, t3]. demo_api_search cid
       (spec_request a ''q2'' since_date until_date limit) i = Inr ([t1, t2, t3] ! i)"
  "demo_api_search cid (spec_request a ''q2'' since_date until_date limit) (length [t1, t2, t3])
     = Inl StopIteration"
  by (auto simp: demo_api_search_def spec_request_def less_Suc_eq)

lemma demo_sink: "demo_insert_one coll k d \<in> {None, Some PyMongoError}"
  by (simp add: demo_insert_one_def)

lemma demo_sink_docs [simp]:
  "demo_insert_one coll k (filtered_tweet query t1) = None"
  "demo_insert_one coll k (filtered_tweet query t2) = Some PyMongoError"
  "demo_insert_one coll k (filtered_tweet query t3) = None"
  by (simp_all add: demo_insert_one_def filtered_tweet_def t1_def t2_def t3_def)

lemma demo_run_q2:
  "collect_and_store_tweets_from_query demo_env a ''q2'' since_date until_date coll None w
     = Some (Inr (),
         w\<lparr>trace := trace w
               @ [Log INFO ''collect_and_store_tweets_from_query >>>'' None,
                  CursorOpened (cursors_opened w) (spec_request a ''q2'' since_date until_date 200)]
               @ spec_items demo_env ''q2'' coll (cursors_opened w) (insert_calls w) [t1, t2, t3]
               @ [Next (cursors_opened w) (Inl StopIteration),
                  Log INFO ''Finished collecting and storing tweets for q2'' None,
                  Log INFO ''collect_and_store_tweets_from_query <<<'' None],
           cursors_opened := Suc (cursors_opened w),
           insert_calls := insert_calls w + 3\<rparr>)"
  using collect_items[of "[t1, t2, t3]" demo_env w a "''q2''" since_date until_date None coll]
    demo_q2_items[of "cursors_opened w" a since_date until_date 200] demo_sink
  by simp

lemma demo_format_dates:
  "format_value demo_env (created_at t1) = ''2019-05-01 10:00:00''"
  "format_value demo_env (created_at t2) = ''2019-05-02 11:30:00''"
  "format_value demo_env (created_at t3) = ''2019-05-03 09:15:00''"
  "format_value demo_env (PInt 60) = ''60''"
  by (simp_all add: format_value_def demo_str_of_def t1_def t2_def t3_def)

lemma demo_q1_script:
  "demo_api_search cid (spec_request a ''q1'' since_date until_date limit) 0 = Inl TweepError"
  "demo_api_search cid (spec_request a ''q1'' since_date until_date limit) (Suc 0) = Inr t1"
  "demo_api_search cid (spec_request a ''q1'' since_date until_date limit) (Suc (Suc 0))
     = Inl StopIteration"
  by (simp_all add: demo_api_search_def spec_request_def)

text \<open>The run of the specification: one rate-limit signal, then one item, then the end.\<close>

lemma demo_run_q1:
  "collect_and_store_tweets_from_query demo_env a ''q1'' since_date until_date coll None w
     = Some (Inr (),
         w\<lparr>trace := trace w
               @ [Log INFO ''collect_and_store_tweets_from_query >>>'' None,
                  CursorOpened (cursors_opened w) (spec_request a ''q1'' since_date until_date 200),
                  Next (cursors_opened w) (Inl TweepError),
                  Log INFO ''Reached Tweet limits, waiting for 60 seconds'' None,
                  Sleep 60,
                  Next (cursors_opened w) (Inr t1),
                  Log INFO ''Query: q1, Tweet_date: 2019-05-01 10:00:00'' None,
                  InsertOne coll (filtered_tweet ''q1'' t1) None,
                  Next (cursors_opened w) (Inl StopIteration),
                  Log INFO ''Finished collecting and storing tweets for q1'' None,
                  Log INFO ''collect_and_store_tweets_from_query <<<'' None],
           cursors_opened := Suc (cursors_opened w),
           insert_calls := Suc (insert_calls w)\<rparr>)"
proof -
  let ?req = "spec_request a ''q1'' since_date until_date 200"
  let ?c = "\<lparr>cursor_id = cursors_opened w, request = ?req, position = 0\<rparr>"
  let ?w2 = "w\<lparr>trace := trace w @ [Log INFO ''collect_and_store_tweets_from_query >>>'' None,
                    CursorOpened (cursors_opened w) ?req],
                cursors_opened := Suc (cursors_opened w)\<rparr>"
  let ?c1 = "?c\<lparr>position := Suc (position ?c)\<rparr>"
  let ?w3 = "?w2\<lparr>trace := trace ?w2 @ [Next (cursor_id ?c) (Inl TweepError),
                   Log INFO (''Reached Tweet limits, waiting for ''
                             @ format_value demo_env (PInt (60 * 1)) @ '' seconds'') None,
                   Sleep (60 * 1)]\<rparr>"
  have s1: "while_true demo_env ''q1'' coll ?c 1 ?w2 = while_true demo_env ''q1'' coll ?c1 (1 + 1) ?w3"
    by (rule while_true_Continue[OF loop_body_rate_limit]) (simp add: demo_q1_script)
  have s2: "while_true demo_env ''q1'' coll ?c1 (1 + 1) ?w3
           = Some (Inr (),
               ?w3\<lparr>trace := trace ?w3 @ spec_items demo_env ''q1'' coll (cursor_id ?c1) (insert_calls ?w3) [t1]
                     @ [Next (cursor_id ?c1) (Inl StopIteration),
                        Log INFO (''Finished collecting and storing tweets for '' @ ''q1'') None],
                 insert_calls := insert_calls ?w3 + length [t1]\<rparr>)"
    by (rule while_true_items) (simp_all add: demo_q1_script)
  let ?w4 = "?w3\<lparr>trace := trace ?w3 @ spec_items demo_env ''q1'' coll (cursor_id ?c1) (insert_calls ?w3) [t1]
                     @ [Next (cursor_id ?c1) (Inl StopIteration),
                        Log INFO (''Finished collecting and storing tweets for '' @ ''q1'') None],
                 insert_calls := insert_calls ?w3 + length [t1]\<rparr>"
  from s1 s2 have wt: "while_true demo_env ''q1'' coll ?c 1 ?w2 = Some (Inr (), ?w4)" by simp
  from collect_from_loop[of demo_env "''q1''" coll w a since_date until_date None
      "Some (Inr (), ?w4)"] wt
  have "collect_and_store_tweets_from_query demo_env a ''q1'' since_date until_date coll None w
          = Some (Inr (), logging INFO ''collect_and_store_tweets_from_query <<<'' ?w4)"
    by simp
  then show ?thesis
    by (simp add: logging_def emit_def spec_item_def demo_format_dates)
qed

lemma demo_run_down:
  "collect_and_store_tweets_from_query demo_env a ''down'' since_date until_date coll None w = None"
  by (rule collect_diverges) (simp add: demo_api_search_def spec_request_def)

section \<open>Properties of collect_and_store_tweets_from_query\<close>


lemma demo_q2_emitted:
  obtains w' where
    "collect_and_store_tweets_from_query demo_env a ''q2'' since_date until_date coll None w
       = Some (Inr (), w')"
    "emitted w w'
       = [Log INFO ''collect_and_store_tweets_from_query >>>'' None,
          CursorOpened (cursors_opened w) (spec_request a ''q2'' since_date until_date 200)]
         @ spec_items demo_env ''q2'' coll (cursors_opened w) (insert_calls w) [t1, t2, t3]
         @ [Next (cursors_opened w) (Inl StopIteration),
            Log INFO ''Finished collecting and storing tweets for q2'' None,
            Log INFO ''collect_and_store_tweets_from_query <<<'' None]"
proof -
  note run = demo_run_q2[of a since_date until_date coll w]
  show thesis
    by (rule that[OF run]) (simp add: emitted_def)
qed

lemma demo_q1_emitted:
  obtains w' where
    "collect_and_store_tweets_from_query demo_env a ''q1'' since_date until_date coll None w
       = Some (Inr (), w')"
    "emitted w w'
       = [Log INFO ''collect_and_store_tweets_from_query >>>'' None,
          CursorOpened (cursors_opened w) (spec_request a ''q1'' since_date until_date 200),
          Next (cursors_opened w) (Inl TweepError),
          Log INFO ''Reached Tweet limits, waiting for 60 seconds'' None,
          Sleep 60,
          Next (cursors_opened w) (Inr t1),
          Log INFO ''Query: q1, Tweet_date: 2019-05-01 10:00:00'' None,
          InsertOne coll (filtered_tweet ''q1'' t1) None,
          Next (cursors_opened w) (Inl StopIteration),
          Log INFO ''Finished collecting and storing tweets for q1'' None,
          Log INFO ''collect_and_store_tweets_from_query <<<'' None]"
proof -
  note run = demo_run_q1[of a since_date until_date coll w]
  show thesis
    by (rule that[OF run]) (simp add: emitted_def)
qed


lemma next_calls_spec_item: "next_calls (spec_item e query coll cid k t) = [cid]"
  by (simp add: spec_item_def Let_def)

text \<open>
  C6. \<open>open_cursor\<close> opens the sequence with the query followed by
  \<open>-filter:retweets\<close>, the dates given as \<open>since\<close> and \<open>until\<close>, the result type
  \<open>mixed\<close> and the limit given. A call of \<open>collect_and_store_tweets_from_query\<close> that
  returns or raises has opened this one sequence, with the limit 200 when the caller gave
  none, and has called \<open>next()\<close> on no other.
\<close>

theorem collect_opens_filtered_mixed_cursor:
  "fst (open_cursor a query since_date until_date limit w)
     = \<lparr>cursor_id = cursors_opened w,
        request = \<lparr>method_of = a, q = query @ '' -filter:retweets'', since = since_date,
                    until = until_date, result_type = ''mixed'', items = limit\<rparr>,
        position = 0\<rparr>
   \<and> (collect_and_store_tweets_from_query e a query since_date until_date coll n w = Some (r, w')
      \<longrightarrow> opened (emitted w w')
            = [(cursors_opened w,
                \<lparr>method_of = a, q = query @ '' -filter:retweets'', since = since_date,
                 until = until_date, result_type = ''mixed'',
                 items = (case n of None \<Rightarrow> 200 | Some k \<Rightarrow> k)\<rparr>)]
          \<and> set (next_calls (emitted w w')) \<subseteq> {cursors_opened w})"
proof (intro conjI impI)
  show "fst (open_cursor a query since_date until_date limit w)
     = \<lparr>cursor_id = cursors_opened w,
        request = \<lparr>method_of = a, q = query @ '' -filter:retweets'', since = since_date,
                    until = until_date, result_type = ''mixed'', items = limit\<rparr>,
        position = 0\<rparr>"
    by (simp add: open_cursor_def Let_def)
next
  assume run: "collect_and_store_tweets_from_query e a query since_date until_date coll n w
                 = Some (r, w')"
  from collect_effects[OF run]
  show "opened (emitted w w')
            = [(cursors_opened w,
                \<lparr>method_of = a, q = query @ '' -filter:retweets'', since = since_date,
                 until = until_date, result_type = ''mixed'',
                 items = (case n of None \<Rightarrow> 200 | Some k \<Rightarrow> k)\<rparr>)]"
    by (simp add: spec_request_def)
  from collect_effects[OF run]
  show "set (next_calls (emitted w w')) \<subseteq> {cursors_opened w}"
    by simp
qed

theorem collect_opens_filtered_mixed_cursor_witness:
  "\<exists>w'. collect_and_store_tweets_from_query demo_env demo_api ''q2'' ''2019-05-01''
           ''2019-05-04'' demo_collection None w0 = Some (Inr (), w')
     \<and> opened (emitted w0 w')
         = [(0, \<lparr>method_of = demo_api, q = ''q2 -filter:retweets'', since = ''2019-05-01'',
                 until = ''2019-05-04'', result_type = ''mixed'', items = 200\<rparr>)]
     \<and> next_calls (emitted w0 w') = [0, 0, 0, 0]"
proof -
  obtain w' where run: "collect_and_store_tweets_from_query demo_env demo_api ''q2''
        ''2019-05-01'' ''2019-05-04'' demo_collection None w0 = Some (Inr (), w')"
    and em: "emitted w0 w'
       = [Log INFO ''collect_and_store_tweets_from_query >>>'' None,
          CursorOpened (cursors_opened w0)
            (spec_request demo_api ''q2'' ''2019-05-01'' ''2019-05-04'' 200)]
         @ spec_items demo_env ''q2'' demo_collection (cursors_opened w0) (insert_calls w0)
             [t1, t2, t3]
         @ [Next (cursors_opened w0) (Inl StopIteration),
            Log INFO ''Finished collecting and storing tweets for q2'' None,
            Log INFO ''collect_and_store_tweets_from_query <<<'' None]"
    by (rule demo_q2_emitted)
  from collect_opens_filtered_mixed_cursor[of demo_api "''q2''" "''2019-05-01''" "''2019-05-04''"
      200 w0 demo_env demo_collection None "Inr ()" w'] run
  have o: "opened (emitted w0 w')
         = [(0, \<lparr>method_of = demo_api, q = ''q2 -filter:retweets'', since = ''2019-05-01'',
                 until = ''2019-05-04'', result_type = ''mixed'', items = 200\<rparr>)]"
    by (simp add: w0_def)
  have n: "next_calls (emitted w0 w') = [0, 0, 0, 0]"
    unfolding em by (simp add: next_calls_spec_item w0_def)
  from run o n show ?thesis by (intro exI[of _ w'] conjI)
qed

text \<open>
  C2. A pass of the loop in which \<open>next()\<close> raises the rate-limit signal logs, sleeps
  \<open>60 \<times> backoff_counter\<close> seconds, adds one to the counter and goes on with the same
  cursor. In a call of \<open>collect_and_store_tweets_from_query\<close> that returns or raises, the
  signals and the sleeps alternate, and the sleep after the \<open>i\<close>-th signal of the call is
  \<open>60 \<times> i\<close> seconds, whatever happened in earlier calls and however many signals there
  are; one cursor is opened, and \<open>next()\<close> is only called on it. When every call of
  \<open>next()\<close> raises the signal, the call never returns.
\<close>

theorem collect_backs_off_linearly:
  "(api_search e (cursor_id c) (request c) (position c) = Inl TweepError
      \<longrightarrow> loop_body e query coll c b w
            = (Continue, c\<lparr>position := Suc (position c)\<rparr>, b + 1,
               w\<lparr>trace := trace w @ [Next (cursor_id c) (Inl TweepError),
                    Log INFO (''Reached Tweet limits, waiting for ''
                              @ format_value e (PInt (60 * b)) @ '' seconds'') None,
                    Sleep (60 * b)]\<rparr>))
   \<and> (collect_and_store_tweets_from_query e a query since_date until_date coll n w = Some (r, w')
      \<longrightarrow> backoff_view (emitted w w')
            = concat (map (\<lambda>i. [None, Some (60 * (1 + int i))])
                        [0..<rate_limit_signals (emitted w w')])
          \<and> length (opened (emitted w w')) = 1
          \<and> set (next_calls (emitted w w')) \<subseteq> {cursors_opened w})
   \<and> ((\<forall>k. api_search e (cursors_opened w)
              (spec_request a query since_date until_date (case n of None \<Rightarrow> 200 | Some k \<Rightarrow> k)) k
            = Inl TweepError)
      \<longrightarrow> collect_and_store_tweets_from_query e a query since_date until_date coll n w = None)"
proof (intro conjI impI)
  assume "api_search e (cursor_id c) (request c) (position c) = Inl TweepError"
  then show "loop_body e query coll c b w
            = (Continue, c\<lparr>position := Suc (position c)\<rparr>, b + 1,
               w\<lparr>trace := trace w @ [Next (cursor_id c) (Inl TweepError),
                    Log INFO (''Reached Tweet limits, waiting for ''
                              @ format_value e (PInt (60 * b)) @ '' seconds'') None,
                    Sleep (60 * b)]\<rparr>)"
    by (rule loop_body_rate_limit)
next
  assume run: "collect_and_store_tweets_from_query e a query since_date until_date coll n w
                 = Some (r, w')"
  from collect_effects[OF run]
  show "backoff_view (emitted w w')
            = concat (map (\<lambda>i. [None, Some (60 * (1 + int i))])
                        [0..<rate_limit_signals (emitted w w')])"
    by (simp add: spec_backoff_def)
  from collect_effects[OF run]
  show "length (opened (emitted w w')) = 1" by simp
  from collect_effects[OF run]
  show "set (next_calls (emitted w w')) \<subseteq> {cursors_opened w}" by simp
next
  assume "\<forall>k. api_search e (cursors_opened w)
              (spec_request a query since_date until_date (case n of None \<Rightarrow> 200 | Some k \<Rightarrow> k)) k
            = Inl TweepError"
  then show "collect_and_store_tweets_from_query e a query since_date until_date coll n w = None"
    by (rule collect_diverges)
qed

theorem collect_backs_off_linearly_witness:
  "(\<exists>w'. collect_and_store_tweets_from_query demo_env demo_api ''q1'' ''2019-05-01''
           ''2019-05-04'' demo_collection None w0 = Some (Inr (), w')
      \<and> backoff_view (emitted w0 w') = [None, Some 60]
      \<and> fetched (emitted w0 w') = [t1]
      \<and> writes (emitted w0 w') = [(demo_collection, filtered_tweet ''q1'' t1, None)])
   \<and> collect_and_store_tweets_from_query demo_env demo_api ''down'' ''2019-05-01''
        ''2019-05-04'' demo_collection None w0 = None
   \<and> fst (loop_body demo_env ''down'' demo_collection
        \<lparr>cursor_id = 0, request = spec_request demo_api ''down'' ''2019-05-01'' ''2019-05-04'' 200,
         position = 7\<rparr> 8 w0) = Continue"
proof (intro conjI)
  obtain w' where run: "collect_and_store_tweets_from_query demo_env demo_api ''q1''
        ''2019-05-01'' ''2019-05-04'' demo_collection None w0 = Some (Inr (), w')"
    and em: "emitted w0 w'
       = [Log INFO ''collect_and_store_tweets_from_query >>>'' None,
          CursorOpened (cursors_opened w0)
            (spec_request demo_api ''q1'' ''2019-05-01'' ''2019-05-04'' 200),
          Next (cursors_opened w0) (Inl TweepError),
          Log INFO ''Reached Tweet limits, waiting for 60 seconds'' None,
          Sleep 60,
          Next (cursors_opened w0) (Inr t1),
          Log INFO ''Query: q1, Tweet_date: 2019-05-01 10:00:00'' None,
          InsertOne demo_collection (filtered_tweet ''q1'' t1) None,
          Next (cursors_opened w0) (Inl StopIteration),
          Log INFO ''Finished collecting and storing tweets for q1'' None,
          Log INFO ''collect_and_store_tweets_from_query <<<'' None]"
    by (rule demo_q1_emitted)
  have s: "rate_limit_signals (emitted w0 w') = 1" unfolding em by simp
  from collect_backs_off_linearly[where e = demo_env and a = demo_api and query = "''q1''"
      and since_date = "''2019-05-01''" and until_date = "''2019-05-04''"
      and coll = demo_collection and n = None and w = w0 and r = "Inr ()" and w' = w'] run
  have "backoff_view (emitted w0 w')
          = concat (map (\<lambda>i. [None, Some (60 * (1 + int i))])
                      [0..<rate_limit_signals (emitted w0 w')])"
    by blast
  then have b: "backoff_view (emitted w0 w') = [None, Some 60]"
    unfolding s by simp
  have f: "fetched (emitted w0 w') = [t1]" unfolding em by simp
  have wr: "writes (emitted w0 w') = [(demo_collection, filtered_tweet ''q1'' t1, None)]"
    unfolding em by simp
  from run b f wr
  show "\<exists>w'. collect_and_store_tweets_from_query demo_env demo_api ''q1'' ''2019-05-01''
           ''2019-05-04'' demo_collection None w0 = Some (Inr (), w')
      \<and> backoff_view (emitted w0 w') = [None, Some 60]
      \<and> fetched (emitted w0 w') = [t1]
      \<and> writes (emitted w0 w') = [(demo_collection, filtered_tweet ''q1'' t1, None)]"
    by (intro exI[of _ w'] conjI)
next
  have "\<forall>k. api_search demo_env (cursors_opened w0)
              (spec_request demo_api ''down'' ''2019-05-01'' ''2019-05-04''
                 (case None of None \<Rightarrow> 200 | Some k \<Rightarrow> k)) k = Inl TweepError"
    by (simp add: demo_api_search_def spec_request_def)
  with collect_backs_off_linearly[where e = demo_env and a = demo_api and query = "''down''"
      and since_date = "''2019-05-01''" and until_date = "''2019-05-04''"
      and coll = demo_collection and n = None and w = w0]
  show "collect_and_store_tweets_from_query demo_env demo_api ''down'' ''2019-05-01''
        ''2019-05-04'' demo_collection None w0 = None"
    by blast
next
  let ?c = "\<lparr>cursor_id = 0, request = spec_request demo_api ''down'' ''2019-05-01'' ''2019-05-04'' 200,
         position = 7\<rparr>"
  have "api_search demo_env (cursor_id ?c) (request ?c) (position ?c) = Inl TweepError"
    by (simp add: demo_api_search_def spec_request_def)
  with collect_backs_off_linearly[where e = demo_env and c = ?c and query = "''down''"
      and coll = demo_collection and b = 8 and w = w0]
  have "loop_body demo_env ''down'' demo_collection ?c 8 w0
            = (Continue, ?c\<lparr>position := Suc (position ?c)\<rparr>, 8 + 1,
               w0\<lparr>trace := trace w0 @ [Next (cursor_id ?c) (Inl TweepError),
                    Log INFO (''Reached Tweet limits, waiting for ''
                              @ format_value demo_env (PInt (60 * 8)) @ '' seconds'') None,
                    Sleep (60 * 8)]\<rparr>)"
    by blast
  then show "fst (loop_body demo_env ''down'' demo_collection ?c 8 w0) = Continue"
    by (simp only: fst_conv)
qed

text \<open>
  C3. When the sequence gives the items \<open>ts\<close> and then ends, and each write either
  succeeds or raises \<open>PyMongoError\<close>, the call returns normally, and its effects are:
  the opening log, the cursor, for each item in order what \<open>spec_item\<close> says (fetch, log,
  one write, and the error log when the write failed), the end of the sequence and the two
  closing logs. So each item is written once, the items after a failed write included,
  and a failed write is not tried again.
\<close>

theorem collect_continues_after_failed_write:
  assumes "\<forall>i<length ts. api_search e (cursors_opened w)
              (spec_request a query since_date until_date (case n of None \<Rightarrow> 200 | Some k \<Rightarrow> k)) i
              = Inr (ts ! i)"
    and "api_search e (cursors_opened w)
              (spec_request a query since_date until_date (case n of None \<Rightarrow> 200 | Some k \<Rightarrow> k))
              (length ts) = Inl StopIteration"
    and "\<forall>i<length ts. insert_one e coll (insert_calls w + i) (filtered_tweet query (ts ! i))
                          \<in> {None, Some PyMongoError}"
  shows "\<exists>w'. collect_and_store_tweets_from_query e a query since_date until_date coll n w
                = Some (Inr (), w')
           \<and> emitted w w'
               = [Log INFO ''collect_and_store_tweets_from_query >>>'' None,
                  CursorOpened (cursors_opened w)
                    (spec_request a query since_date until_date
                       (case n of None \<Rightarrow> 200 | Some k \<Rightarrow> k))]
                 @ spec_items e query coll (cursors_opened w) (insert_calls w) ts
                 @ [Next (cursors_opened w) (Inl StopIteration),
                    Log INFO (''Finished collecting and storing tweets for '' @ query) None,
                    Log INFO ''collect_and_store_tweets_from_query <<<'' None]
           \<and> writes (emitted w w')
               = map (\<lambda>i. (coll, filtered_tweet query (ts ! i),
                            insert_one e coll (insert_calls w + i) (filtered_tweet query (ts ! i))))
                   [0..<length ts]"
proof -
  note run = collect_items[OF assms]
  let ?em = "[Log INFO ''collect_and_store_tweets_from_query >>>'' None,
                  CursorOpened (cursors_opened w)
                    (spec_request a query since_date until_date
                       (case n of None \<Rightarrow> 200 | Some k \<Rightarrow> k))]
                 @ spec_items e query coll (cursors_opened w) (insert_calls w) ts
                 @ [Next (cursors_opened w) (Inl StopIteration),
                    Log INFO (''Finished collecting and storing tweets for '' @ query) None,
                    Log INFO ''collect_and_store_tweets_from_query <<<'' None]"
  let ?w' = "w\<lparr>trace := trace w @ ?em, cursors_opened := Suc (cursors_opened w),
               insert_calls := insert_calls w + length ts\<rparr>"
  have em: "emitted w ?w' = ?em" by (simp add: emitted_def)
  have wr: "writes ?em
               = map (\<lambda>i. (coll, filtered_tweet query (ts ! i),
                            insert_one e coll (insert_calls w + i) (filtered_tweet query (ts ! i))))
                   [0..<length ts]"
    by (simp add: writes_spec_items)
  show ?thesis
    by (rule exI[of _ ?w']) (simp only: run em wr simp_thms)
qed

theorem collect_continues_after_failed_write_witness:
  "\<exists>w'. collect_and_store_tweets_from_query demo_env demo_api ''q2'' ''2019-05-01''
           ''2019-05-04'' demo_collection None w0 = Some (Inr (), w')
     \<and> writes (emitted w0 w')
         = [(demo_collection, filtered_tweet ''q2'' t1, None),
            (demo_collection, filtered_tweet ''q2'' t2, Some PyMongoError),
            (demo_collection, filtered_tweet ''q2'' t3, None)]"
proof -
  have h1: "\<forall>i<length [t1, t2, t3]. api_search demo_env (cursors_opened w0)
              (spec_request demo_api ''q2'' ''2019-05-01'' ''2019-05-04''
                 (case None of None \<Rightarrow> 200 | Some k \<Rightarrow> k)) i = Inr ([t1, t2, t3] ! i)"
    using demo_q2_items(1)[of "cursors_opened w0" demo_api "''2019-05-01''" "''2019-05-04''" 200]
    by simp
  have h2: "api_search demo_env (cursors_opened w0)
              (spec_request demo_api ''q2'' ''2019-05-01'' ''2019-05-04''
                 (case None of None \<Rightarrow> 200 | Some k \<Rightarrow> k)) (length [t1, t2, t3])
              = Inl StopIteration"
    using demo_q2_items(2)[of "cursors_opened w0" demo_api "''2019-05-01''" "''2019-05-04''" 200]
    by simp
  have h3: "\<forall>i<length [t1, t2, t3]. insert_one demo_env demo_collection (insert_calls w0 + i)
              (filtered_tweet ''q2'' ([t1, t2, t3] ! i)) \<in> {None, Some PyMongoError}"
    using demo_sink by simp
  from collect_continues_after_failed_write[OF h1 h2 h3]
  obtain w' where run: "collect_and_store_tweets_from_query demo_env demo_api ''q2''
        ''2019-05-01'' ''2019-05-04'' demo_collection None w0 = Some (Inr (), w')"
    and wr: "writes (emitted w0 w')
               = map (\<lambda>i. (demo_collection, filtered_tweet ''q2'' ([t1, t2, t3] ! i),
                            insert_one demo_env demo_collection (insert_calls w0 + i)
                              (filtered_tweet ''q2'' ([t1, t2, t3] ! i))))
                   [0..<length [t1, t2, t3]]"
    by blast
  have "[0..<length [t1, t2, t3]] = [0, 1, 2]" by (simp add: upt_rec)
  with wr have "writes (emitted w0 w')
         = [(demo_collection, filtered_tweet ''q2'' t1, None),
            (demo_collection, filtered_tweet ''q2'' t2, Some PyMongoError),
            (demo_collection, filtered_tweet ''q2'' t3, None)]"
    by simp
  with run show ?thesis by (intro exI[of _ w'] conjI)
qed

section \<open>The loop over the queries\<close>

lemma randints_simps [simp]:
  "randints [] = []" "randints (x # xs) = randint_of x @ randints xs"
  "randints (xs @ ys) = randints xs @ randints ys"
  by (simp_all add: randints_def)

lemma randints_timeline: "randints (timeline tr) = randints tr"
proof (induction tr)
  case Nil
  show ?case by simp
next
  case (Cons x xs)
  then show ?case by (cases x) simp_all
qed

lemma randints_spec_backoff_sleeps [simp]: "randints (spec_backoff_sleeps b m) = []"
  by (induction m arbitrary: b) (simp_all add: spec_backoff_sleeps_Suc)

lemma randints_spec_timeline:
  "randints (spec_timeline e a since_date until_date co rc qms)
     = map (\<lambda>i. randint e (rc + i) 30 120) [0..<length qms]"
proof (induction qms arbitrary: co rc)
  case Nil
  show ?case by simp
next
  case (Cons qm qms)
  obtain query m where qm: "qm = (query, m)" by (cases qm)
  show ?case
    by (simp add: qm Cons.IH map_upt_Suc del: upt_Suc)
qed

lemma collect_writes_on:
  assumes "collect_and_store_tweets_from_query e a query since_date until_date coll n w
             = Some (r, w')"
  shows "fst ` set (writes (emitted w w')) \<subseteq> {coll}"
proof
  fix c assume "c \<in> fst ` set (writes (emitted w w'))"
  then obtain d x where "(c, d, x) \<in> set (writes (emitted w w'))" by force
  then have "(c, d) \<in> set (map (\<lambda>(c, d, x). (c, d)) (writes (emitted w w')))"
    by force
  with collect_effects[OF assms]
  have "(c, d) \<in> set (map (\<lambda>t. (coll, filtered_tweet query t)) (fetched (emitted w w')))"
    by simp
  then show "c \<in> {coll}" by auto
qed

lemma sleep_randint_trace:
  "trace (sleep_randint e x y w)
     = trace w @ [Randint x y (randint e (randint_calls w) x y),
                  Sleep (randint e (randint_calls w) x y)]"
  "cursors_opened (sleep_randint e x y w) = cursors_opened w"
  "randint_calls (sleep_randint e x y w) = Suc (randint_calls w)"
  "insert_calls (sleep_randint e x y w) = insert_calls w"
  by (simp_all add: sleep_randint_def sleep_def emit_def Let_def)

lemma logging_trace:
  "trace (logging l m w) = trace w @ [Log l m None]"
  "cursors_opened (logging l m w) = cursors_opened w"
  "randint_calls (logging l m w) = randint_calls w"
  "insert_calls (logging l m w) = insert_calls w"
  by (simp_all add: logging_def emit_def)

text \<open>The two ways a pass of the \<open>for\<close> loop can go.\<close>

lemma for_query_Cons:
  assumes "for_query e a (query # rest) since_date until_date coll w = Some (r, w')"
  obtains (raise) x where
      "collect_and_store_tweets_from_query e a query since_date until_date coll None
         (logging INFO (''Working on: '' @ query) w) = Some (Inl x, w')"
      "r = Inl x"
    | (go_on) w2 where
      "collect_and_store_tweets_from_query e a query since_date until_date coll None
         (logging INFO (''Working on: '' @ query) w) = Some (Inr (), w2)"
      "for_query e a rest since_date until_date coll (sleep_randint e 30 120 w2) = Some (r, w')"
proof -
  let ?w1 = "logging INFO (''Working on: '' @ query) w"
  from assms obtain r1 w2 where
    c: "collect_and_store_tweets_from_query e a query since_date until_date coll None ?w1
          = Some (r1, w2)"
    by (cases "collect_and_store_tweets_from_query e a query since_date until_date coll None ?w1")
       (auto simp: Let_def)
  show thesis
  proof (cases r1)
    case (Inl x)
    with assms c have "r = Inl x" "w' = w2" by (simp_all add: Let_def)
    with c Inl show thesis by (intro raise[of x]) simp_all
  next
    case (Inr u)
    with assms c have "for_query e a rest since_date until_date coll (sleep_randint e 30 120 w2)
                         = Some (r, w')"
      by (simp add: Let_def)
    with c Inr show thesis by (intro go_on[of w2]) simp_all
  qed
qed

text \<open>A loop over the queries that ended normally: its timeline.\<close>

lemma for_query_timeline:
  assumes "for_query e a qs since_date until_date coll w = Some (Inr (), w')"
  shows "\<exists>new ms. trace w' = trace w @ new \<and> length ms = length qs
           \<and> timeline new = spec_timeline e a since_date until_date
                               (cursors_opened w) (randint_calls w) (zip qs ms)
           \<and> (qs \<noteq> [] \<longrightarrow> (\<exists>pre r. new = pre @ [Randint 30 120 r, Sleep r]))"
  using assms
proof (induction qs arbitrary: w)
  case Nil
  then have "w' = w" by simp
  then show ?case by simp
next
  case (Cons query rest)
  let ?w1 = "logging INFO (''Working on: '' @ query) w"
  from Cons.prems show ?case
  proof (cases rule: for_query_Cons)
    case (raise x)
    then show ?thesis by simp
  next
    case (go_on w2)
    let ?w3 = "sleep_randint e 30 120 w2"
    let ?r = "randint e (randint_calls w) 30 120"
    note C = collect_effects[OF go_on(1)]
    define em where "em = emitted ?w1 w2"
    from C have t2: "trace w2 = trace w @ [Log INFO (''Working on: '' @ query) None] @ em"
      and co2: "cursors_opened w2 = Suc (cursors_opened w)"
      and rc2: "randint_calls w2 = randint_calls w"
      and tl: "timeline em = CursorOpened (cursors_opened w)
                               (spec_request a query since_date until_date 200)
                             # spec_backoff_sleeps 1 (rate_limit_signals em)"
      by (simp_all add: em_def logging_trace)
    from Cons.IH[OF go_on(2)] obtain new ms where
      n: "trace w' = trace ?w3 @ new" "length ms = length rest"
         "timeline new = spec_timeline e a since_date until_date
                           (cursors_opened ?w3) (randint_calls ?w3) (zip rest ms)"
         "rest \<noteq> [] \<longrightarrow> (\<exists>pre r. new = pre @ [Randint 30 120 r, Sleep r])"
      by blast
    let ?new = "[Log INFO (''Working on: '' @ query) None] @ em
                  @ [Randint 30 120 ?r, Sleep ?r] @ new"
    let ?ms = "rate_limit_signals em # ms"
    have 1: "trace w' = trace w @ ?new"
      using n(1) t2 by (simp add: sleep_randint_trace rc2)
    have 2: "length ?ms = length (query # rest)" using n(2) by simp
    have 3: "timeline ?new = spec_timeline e a since_date until_date
                               (cursors_opened w) (randint_calls w) (zip (query # rest) ?ms)"
      using n(3) tl by (simp add: sleep_randint_trace co2 rc2)
    have 4: "\<exists>pre r. ?new = pre @ [Randint 30 120 r, Sleep r]"
    proof (cases "rest = []")
      case True
      with go_on(2) have "w' = ?w3" by simp
      with n(1) have "new = []" by simp
      then have "?new = ([Log INFO (''Working on: '' @ query) None] @ em)
                          @ [Randint 30 120 ?r, Sleep ?r]" by simp
      then show ?thesis by blast
    next
      case False
      with n(4) obtain pre r where "new = pre @ [Randint 30 120 r, Sleep r]" by blast
      then have "?new = ([Log INFO (''Working on: '' @ query) None] @ em
                           @ [Randint 30 120 ?r, Sleep ?r] @ pre)
                          @ [Randint 30 120 r, Sleep r]" by simp
      then show ?thesis by blast
    qed
    from 1 2 3 4 show ?thesis by blast
  qed
qed

text \<open>A loop over the queries that ended: what was raised, and where the writes went.\<close>

lemma for_query_raised:
  assumes "for_query e a qs since_date until_date coll w = Some (r, w')"
  shows "\<exists>new k. trace w' = trace w @ new
           \<and> fst ` set (writes new) \<subseteq> {coll}
           \<and> filter (\<lambda>x. \<not> handled x) (raised new) = (case r of Inl x \<Rightarrow> [x] | Inr u \<Rightarrow> [])
           \<and> (\<forall>x. r = Inl x \<longrightarrow> \<not> handled x \<and> new \<noteq> [] \<and> raised_of (last new) = [x] \<and> 0 < k)
           \<and> k \<le> length qs \<and> (r = Inr () \<longrightarrow> k = length qs)
           \<and> map snd (opened new)
               = map (\<lambda>query. spec_request a query since_date until_date 200) (take k qs)"
  using assms
proof (induction qs arbitrary: w)
  case Nil
  then have "w' = w" "r = Inr ()" by simp_all
  then show ?case by simp
next
  case (Cons query rest)
  let ?w1 = "logging INFO (''Working on: '' @ query) w"
  let ?lg = "Log INFO (''Working on: '' @ query) None"
  from Cons.prems show ?case
  proof (cases rule: for_query_Cons)
    case (raise x)
    note C = collect_effects[OF raise(1)]
    define em where "em = emitted ?w1 w'"
    have wr: "fst ` set (writes em) \<subseteq> {coll}"
      using collect_writes_on[OF raise(1)] unfolding em_def .
    from C have 1: "trace w' = trace w @ (?lg # em)"
      by (simp add: em_def logging_trace)
    from C have 2: "filter (\<lambda>x. \<not> handled x) (raised (?lg # em)) = [x]"
      by (simp add: em_def)
    from C have 3: "\<not> handled x \<and> ?lg # em \<noteq> [] \<and> raised_of (last (?lg # em)) = [x]"
      by (simp add: em_def)
    from C have 4: "map snd (opened (?lg # em))
               = map (\<lambda>query. spec_request a query since_date until_date 200)
                   (take (Suc 0) (query # rest))"
      by (simp add: em_def logging_trace)
    have 5: "fst ` set (writes (?lg # em)) \<subseteq> {coll}"
      using wr by simp
    show ?thesis
      by (rule exI[of _ "?lg # em"], rule exI[of _ "Suc 0"])
         (use 1 2 3 4 5 raise(2) in simp)
  next
    case (go_on w2)
    let ?w3 = "sleep_randint e 30 120 w2"
    let ?r = "randint e (randint_calls w2) 30 120"
    note C = collect_effects[OF go_on(1)]
    define em where "em = emitted ?w1 w2"
    have wr: "fst ` set (writes em) \<subseteq> {coll}"
      using collect_writes_on[OF go_on(1)] unfolding em_def .
    from C have t2: "trace w2 = trace w @ (?lg # em)"
      and ra: "filter (\<lambda>x. \<not> handled x) (raised em) = []"
      and op: "map snd (opened em) = [spec_request a query since_date until_date 200]"
      by (simp_all add: em_def logging_trace)
    from Cons.IH[OF go_on(2)] obtain new k where
      n: "trace w' = trace ?w3 @ new"
         "fst ` set (writes new) \<subseteq> {coll}"
         "filter (\<lambda>x. \<not> handled x) (raised new) = (case r of Inl x \<Rightarrow> [x] | Inr u \<Rightarrow> [])"
         "\<forall>x. r = Inl x \<longrightarrow> \<not> handled x \<and> new \<noteq> [] \<and> raised_of (last new) = [x] \<and> 0 < k"
         "k \<le> length rest" "r = Inr () \<longrightarrow> k = length rest"
         "map snd (opened new)
            = map (\<lambda>query. spec_request a query since_date until_date 200) (take k rest)"
      by blast
    let ?new = "(?lg # em) @ [Randint 30 120 ?r, Sleep ?r] @ new"
    have 1: "trace w' = trace w @ ?new"
      using n(1) t2 by (simp add: sleep_randint_trace)
    have 2: "fst ` set (writes ?new) \<subseteq> {coll}"
      using wr n(2) by (simp add: image_Un)
    have 3: "filter (\<lambda>x. \<not> handled x) (raised ?new) = (case r of Inl x \<Rightarrow> [x] | Inr u \<Rightarrow> [])"
      using ra n(3) by simp
    have 4: "\<forall>x. r = Inl x \<longrightarrow> \<not> handled x \<and> ?new \<noteq> [] \<and> raised_of (last ?new) = [x] \<and> 0 < Suc k"
      using n(4) by simp
    have 5: "Suc k \<le> length (query # rest)" "r = Inr () \<longrightarrow> Suc k = length (query # rest)"
      using n(5,6) by simp_all
    have 6: "map snd (opened ?new)
               = map (\<lambda>query. spec_request a query since_date until_date 200)
                   (take (Suc k) (query # rest))"
      using op n(7) by simp
    show ?thesis
      by (rule exI[of _ ?new], rule exI[of _ "Suc k"]) (use 1 2 3 4 5 6 in blast)
  qed
qed

section \<open>Properties of download_and_store_tweets_on_mongodb\<close>

text \<open>A call that ended: the loop inside it.\<close>

lemma download_unfold:
  assumes "download_and_store_tweets_on_mongodb e a qs since_date until_date coll w = Some (r, w')"
  obtains w2 where
    "for_query e a qs since_date until_date coll
       (logging INFO ''download_and_store_tweets_on_mongodb >>>'' w) = Some (r, w2)"
    "w' = (case r of Inl x \<Rightarrow> w2
           | Inr u \<Rightarrow> logging INFO ''download_and_store_tweets_on_mongodb <<<'' w2)"
proof -
  let ?w1 = "logging INFO ''download_and_store_tweets_on_mongodb >>>'' w"
  from assms obtain r2 w2 where
    f: "for_query e a qs since_date until_date coll ?w1 = Some (r2, w2)"
    by (cases "for_query e a qs since_date until_date coll ?w1")
       (auto simp: download_and_store_tweets_on_mongodb_def Let_def)
  with assms have "r = r2 \<and> w' = (case r of Inl x \<Rightarrow> w2
           | Inr u \<Rightarrow> logging INFO ''download_and_store_tweets_on_mongodb <<<'' w2)"
    by (cases r2) (auto simp: download_and_store_tweets_on_mongodb_def Let_def)
  with f show thesis by (intro that[of w2]) simp_all
qed

lemma download_timeline:
  assumes run: "download_and_store_tweets_on_mongodb e a qs since_date until_date coll w
                  = Some (Inr (), w')"
  shows "\<exists>ms. length ms = length qs
           \<and> timeline (emitted w w')
               = spec_timeline e a since_date until_date
                   (cursors_opened w) (randint_calls w) (zip qs ms)
           \<and> (qs \<noteq> [] \<longrightarrow> (\<exists>pre r. emitted w w'
                 = pre @ [Randint 30 120 r, Sleep r,
                          Log INFO ''download_and_store_tweets_on_mongodb <<<'' None]))"
proof -
  let ?w1 = "logging INFO ''download_and_store_tweets_on_mongodb >>>'' w"
  let ?l1 = "Log INFO ''download_and_store_tweets_on_mongodb >>>'' None"
  let ?l2 = "Log INFO ''download_and_store_tweets_on_mongodb <<<'' None"
  from run obtain w2 where
    f: "for_query e a qs since_date until_date coll ?w1 = Some (Inr (), w2)"
    and w': "w' = logging INFO ''download_and_store_tweets_on_mongodb <<<'' w2"
    by (rule download_unfold) simp
  from for_query_timeline[OF f] obtain new ms where
    n: "trace w2 = trace ?w1 @ new" "length ms = length qs"
       "timeline new = spec_timeline e a since_date until_date
                         (cursors_opened ?w1) (randint_calls ?w1) (zip qs ms)"
       "qs \<noteq> [] \<longrightarrow> (\<exists>pre r. new = pre @ [Randint 30 120 r, Sleep r])"
    by blast
  have "trace w' = trace w @ (?l1 # new @ [?l2])"
    using n(1) w' by (simp add: logging_trace)
  then have em: "emitted w w' = ?l1 # new @ [?l2]" by (rule emitted_append)
  have tl: "timeline (emitted w w')
               = spec_timeline e a since_date until_date
                   (cursors_opened w) (randint_calls w) (zip qs ms)"
    unfolding em using n(3) by (simp add: logging_trace)
  have lst: "qs \<noteq> [] \<longrightarrow> (\<exists>pre r. emitted w w' = pre @ [Randint 30 120 r, Sleep r, ?l2])"
  proof
    assume "qs \<noteq> []"
    with n(4) obtain pre r where "new = pre @ [Randint 30 120 r, Sleep r]" by blast
    then have "emitted w w' = (?l1 # pre) @ [Randint 30 120 r, Sleep r, ?l2]"
      unfolding em by simp
    then show "\<exists>pre r. emitted w w' = pre @ [Randint 30 120 r, Sleep r, ?l2]" by blast
  qed
  from n(2) tl lst show ?thesis by blast
qed

lemma download_randints:
  assumes run: "download_and_store_tweets_on_mongodb e a qs since_date until_date coll w
                  = Some (Inr (), w')"
  shows "randints (emitted w w')
           = map (\<lambda>i. randint e (randint_calls w + i) 30 120) [0..<length qs]"
proof -
  from download_timeline[OF run] obtain ms where
    ms: "length ms = length qs"
        "timeline (emitted w w')
           = spec_timeline e a since_date until_date
               (cursors_opened w) (randint_calls w) (zip qs ms)"
    by blast
  have "randints (emitted w w') = randints (timeline (emitted w w'))"
    by (simp add: randints_timeline)
  also have "\<dots> = map (\<lambda>i. randint e (randint_calls w + i) 30 120) [0..<length (zip qs ms)]"
    unfolding ms(2) by (rule randints_spec_timeline)
  finally show ?thesis using ms(1) by simp
qed

lemma download_raised:
  assumes run: "download_and_store_tweets_on_mongodb e a qs since_date until_date coll w
                  = Some (r, w')"
  shows "trace w' = trace w @ emitted w w'
         \<and> fst ` set (writes (emitted w w')) \<subseteq> {coll}
         \<and> filter (\<lambda>x. \<not> handled x) (raised (emitted w w'))
             = (case r of Inl x \<Rightarrow> [x] | Inr u \<Rightarrow> [])
         \<and> (\<forall>x. r = Inl x \<longrightarrow> \<not> handled x \<and> raised_of (last (emitted w w')) = [x]
               \<and> (\<exists>k. 0 < k \<and> k \<le> length qs
                     \<and> map snd (opened (emitted w w'))
                         = map (\<lambda>query. spec_request a query since_date until_date 200)
                             (take k qs)))"
proof -
  let ?w1 = "logging INFO ''download_and_store_tweets_on_mongodb >>>'' w"
  let ?l1 = "Log INFO ''download_and_store_tweets_on_mongodb >>>'' None"
  let ?l2 = "Log INFO ''download_and_store_tweets_on_mongodb <<<'' None"
  from run obtain w2 where
    f: "for_query e a qs since_date until_date coll ?w1 = Some (r, w2)"
    and w': "w' = (case r of Inl x \<Rightarrow> w2
                   | Inr u \<Rightarrow> logging INFO ''download_and_store_tweets_on_mongodb <<<'' w2)"
    by (rule download_unfold)
  from for_query_raised[OF f] obtain new k where
    n: "trace w2 = trace ?w1 @ new"
       "fst ` set (writes new) \<subseteq> {coll}"
       "filter (\<lambda>x. \<not> handled x) (raised new) = (case r of Inl x \<Rightarrow> [x] | Inr u \<Rightarrow> [])"
       "\<forall>x. r = Inl x \<longrightarrow> \<not> handled x \<and> new \<noteq> [] \<and> raised_of (last new) = [x] \<and> 0 < k"
       "k \<le> length qs"
       "map snd (opened new)
          = map (\<lambda>query. spec_request a query since_date until_date 200) (take k qs)"
    by blast
  define post where "post = (case r of Inl x \<Rightarrow> [] | Inr u \<Rightarrow> [?l2])"
  have tw: "trace w' = trace w @ (?l1 # new @ post)"
    using n(1) w' by (cases r) (simp_all add: post_def logging_trace)
  then have em: "emitted w w' = ?l1 # new @ post" by (rule emitted_append)
  have post_simps: "writes post = []" "raised post = []" "opened post = []"
    by (cases r; simp add: post_def)+
  have 1: "trace w' = trace w @ emitted w w'" using tw em by simp
  have 2: "fst ` set (writes (emitted w w')) \<subseteq> {coll}"
    unfolding em using n(2) post_simps by simp
  have 3: "filter (\<lambda>x. \<not> handled x) (raised (emitted w w'))
             = (case r of Inl x \<Rightarrow> [x] | Inr u \<Rightarrow> [])"
    unfolding em using n(3) post_simps by simp
  have 4: "\<forall>x. r = Inl x \<longrightarrow> \<not> handled x \<and> raised_of (last (emitted w w')) = [x]
               \<and> (\<exists>k. 0 < k \<and> k \<le> length qs
                     \<and> map snd (opened (emitted w w'))
                         = map (\<lambda>query. spec_request a query since_date until_date 200)
                             (take k qs))"
  proof (intro allI impI)
    fix x assume rx: "r = Inl x"
    with n(4) have a: "\<not> handled x" "new \<noteq> []" "raised_of (last new) = [x]" "0 < k" by simp_all
    from rx have p: "post = []" by (simp add: post_def)
    have l: "raised_of (last (emitted w w')) = [x]"
      unfolding em p using a(2,3) by simp
    have o: "map snd (opened (emitted w w'))
               = map (\<lambda>query. spec_request a query since_date until_date 200) (take k qs)"
      unfolding em p using n(6) by simp
    from a(1,4) l o n(5)
    show "\<not> handled x \<and> raised_of (last (emitted w w')) = [x]
               \<and> (\<exists>k. 0 < k \<and> k \<le> length qs
                     \<and> map snd (opened (emitted w w'))
                         = map (\<lambda>query. spec_request a query since_date until_date 200)
                             (take k qs))"
      by blast
  qed
  from 1 2 3 4 show ?thesis by blast
qed

lemma demo_bad_script:
  "demo_api_search cid (spec_request a ''bad'' since_date until_date limit) 0 = Inr t3"
  "demo_api_search cid (spec_request a ''bad'' since_date until_date limit) (Suc 0)
     = Inl (OtherException ''ConnectionError'')"
  by (simp_all add: demo_api_search_def spec_request_def)

text \<open>A run that an exception leaves: one item, then a connection error.\<close>

lemma demo_run_bad:
  "collect_and_store_tweets_from_query demo_env a ''bad'' since_date until_date coll None w
     = Some (Inl (OtherException ''ConnectionError''),
         w\<lparr>trace := trace w
               @ [Log INFO ''collect_and_store_tweets_from_query >>>'' None,
                  CursorOpened (cursors_opened w) (spec_request a ''bad'' since_date until_date 200),
                  Next (cursors_opened w) (Inr t3),
                  Log INFO ''Query: bad, Tweet_date: 2019-05-03 09:15:00'' None,
                  InsertOne coll (filtered_tweet ''bad'' t3) None,
                  Next (cursors_opened w) (Inl (OtherException ''ConnectionError''))],
           cursors_opened := Suc (cursors_opened w),
           insert_calls := Suc (insert_calls w)\<rparr>)"
proof -
  let ?req = "spec_request a ''bad'' since_date until_date 200"
  let ?c = "\<lparr>cursor_id = cursors_opened w, request = ?req, position = 0\<rparr>"
  let ?w2 = "w\<lparr>trace := trace w @ [Log INFO ''collect_and_store_tweets_from_query >>>'' None,
                    CursorOpened (cursors_opened w) ?req],
                cursors_opened := Suc (cursors_opened w)\<rparr>"
  let ?c1 = "?c\<lparr>position := Suc (position ?c)\<rparr>"
  let ?w3 = "?w2\<lparr>trace := trace ?w2 @ spec_item demo_env ''bad'' coll (cursor_id ?c) (insert_calls ?w2) t3,
                insert_calls := Suc (insert_calls ?w2)\<rparr>"
  let ?w4 = "?w3\<lparr>trace := trace ?w3 @ [Next (cursor_id ?c1) (Inl (OtherException ''ConnectionError''))]\<rparr>"
  have s1: "while_true demo_env ''bad'' coll ?c 1 ?w2 = while_true demo_env ''bad'' coll ?c1 1 ?w3"
    by (rule while_true_Continue[OF loop_body_item]) (simp_all add: demo_bad_script)
  have s2: "while_true demo_env ''bad'' coll ?c1 1 ?w3
              = Some (Inl (OtherException ''ConnectionError''), ?w4)"
    by (rule while_true_Propagate[OF loop_body_unhandled])
       (simp_all add: demo_bad_script handled_def)
  from s1 s2 have wt: "while_true demo_env ''bad'' coll ?c 1 ?w2
                         = Some (Inl (OtherException ''ConnectionError''), ?w4)" by simp
  from collect_from_loop[of demo_env "''bad''" coll w a since_date until_date None
      "Some (Inl (OtherException ''ConnectionError''), ?w4)"] wt
  have "collect_and_store_tweets_from_query demo_env a ''bad'' since_date until_date coll None w
          = Some (Inl (OtherException ''ConnectionError''), ?w4)"
    by simp
  then show ?thesis
    by (simp add: spec_item_def demo_format_dates)
qed

lemma timeline_spec_item [simp]: "timeline (spec_item e query coll cid k t) = []"
  by (simp add: spec_item_def Let_def)

lemma randints_spec_item [simp]: "randints (spec_item e query coll cid k t) = []"
  by (simp add: spec_item_def Let_def)

lemma opened_spec_item [simp]: "opened (spec_item e query coll cid k t) = []"
  by (simp add: spec_item_def Let_def)

lemma raised_spec_item [simp]:
  "raised (spec_item e query coll cid k t)
     = (case insert_one e coll k (filtered_tweet query t) of None \<Rightarrow> [] | Some x \<Rightarrow> [x])"
  by (simp add: spec_item_def Let_def split: option.splits)

lemmas demo_world = logging_def emit_def sleep_randint_def sleep_def Let_def demo_randint_def
  emitted_def w0_def

text \<open>The run of the driver on the queries q1 and q2.\<close>

lemma demo_download_q1q2:
  "\<exists>w'. download_and_store_tweets_on_mongodb demo_env a [''q1'', ''q2''] since_date until_date
           coll w0 = Some (Inr (), w')
     \<and> timeline (emitted w0 w')
         = [CursorOpened 0 (spec_request a ''q1'' since_date until_date 200), Sleep 60,
            Randint 30 120 30, Sleep 30,
            CursorOpened 1 (spec_request a ''q2'' since_date until_date 200),
            Randint 30 120 75, Sleep 75]
     \<and> randints (emitted w0 w') = [30, 75]
     \<and> last (emitted w0 w') = Log INFO ''download_and_store_tweets_on_mongodb <<<'' None
     \<and> map (\<lambda>(c, d, x). (d, x)) (writes (emitted w0 w'))
         = [(filtered_tweet ''q1'' t1, None), (filtered_tweet ''q2'' t1, None),
            (filtered_tweet ''q2'' t2, Some PyMongoError), (filtered_tweet ''q2'' t3, None)]"
  by (simp add: download_and_store_tweets_on_mongodb_def demo_run_q1 demo_run_q2 demo_world)

text \<open>The run of the driver on the queries q1, bad and q2.\<close>

lemma demo_download_bad:
  "\<exists>w'. download_and_store_tweets_on_mongodb demo_env a [''q1'', ''bad'', ''q2''] since_date
           until_date coll w0 = Some (Inl (OtherException ''ConnectionError''), w')
     \<and> map snd (opened (emitted w0 w'))
         = [spec_request a ''q1'' since_date until_date 200,
            spec_request a ''bad'' since_date until_date 200]
     \<and> raised (emitted w0 w') = [TweepError, StopIteration, OtherException ''ConnectionError'']
     \<and> last (emitted w0 w') = Next 1 (Inl (OtherException ''ConnectionError''))"
  by (simp add: download_and_store_tweets_on_mongodb_def demo_run_q1 demo_run_bad demo_world)



text \<open>
  C10. For the empty list of queries \<open>download_and_store_tweets_on_mongodb\<close> only logs
  its entry and its exit. In a call that returns, \<open>randint(30, 120)\<close> has been called once
  for each query of the list, and when the list is not empty the last effects of the
  call are such a call of \<open>randint\<close>, the sleep of what it returned, and the log of the
  exit: the driver sleeps after the last query too.
\<close>

theorem download_sleeps_after_every_query:
  "download_and_store_tweets_on_mongodb e a [] since_date until_date coll w
     = Some (Inr (), w\<lparr>trace := trace w
               @ [Log INFO ''download_and_store_tweets_on_mongodb >>>'' None,
                  Log INFO ''download_and_store_tweets_on_mongodb <<<'' None]\<rparr>)
   \<and> (download_and_store_tweets_on_mongodb e a qs since_date until_date coll w
         = Some (Inr (), w')
      \<longrightarrow> randints (emitted w w')
            = map (\<lambda>i. randint e (randint_calls w + i) 30 120) [0..<length qs]
          \<and> (qs \<noteq> [] \<longrightarrow> (\<exists>pre r. emitted w w'
                 = pre @ [Randint 30 120 r, Sleep r,
                          Log INFO ''download_and_store_tweets_on_mongodb <<<'' None])))"
proof (intro conjI impI)
  show "download_and_store_tweets_on_mongodb e a [] since_date until_date coll w
     = Some (Inr (), w\<lparr>trace := trace w
               @ [Log INFO ''download_and_store_tweets_on_mongodb >>>'' None,
                  Log INFO ''download_and_store_tweets_on_mongodb <<<'' None]\<rparr>)"
    by (simp add: download_and_store_tweets_on_mongodb_def logging_def emit_def)
next
  assume run: "download_and_store_tweets_on_mongodb e a qs since_date until_date coll w
                 = Some (Inr (), w')"
  show "randints (emitted w w')
            = map (\<lambda>i. randint e (randint_calls w + i) 30 120) [0..<length qs]"
    by (rule download_randints[OF run])
next
  assume run: "download_and_store_tweets_on_mongodb e a qs since_date until_date coll w
                 = Some (Inr (), w')"
    and ne: "qs \<noteq> []"
  from download_timeline[OF run] ne
  show "\<exists>pre r. emitted w w'
                 = pre @ [Randint 30 120 r, Sleep r,
                          Log INFO ''download_and_store_tweets_on_mongodb <<<'' None]"
    by blast
qed

theorem download_sleeps_after_every_query_witness:
  "\<exists>w'. download_and_store_tweets_on_mongodb demo_env demo_api [''q1'', ''q2'']
              ''2019-05-01'' ''2019-05-04'' demo_collection w0 = Some (Inr (), w')
     \<and> randints (emitted w0 w') = [30, 75]
     \<and> (\<exists>pre r. emitted w0 w'
           = pre @ [Randint 30 120 r, Sleep r,
                    Log INFO ''download_and_store_tweets_on_mongodb <<<'' None])"
proof -
  from demo_download_q1q2[of demo_api "''2019-05-01''" "''2019-05-04''" demo_collection]
  obtain w' where
    run: "download_and_store_tweets_on_mongodb demo_env demo_api [''q1'', ''q2'']
              ''2019-05-01'' ''2019-05-04'' demo_collection w0 = Some (Inr (), w')"
    and rs: "randints (emitted w0 w') = [30, 75]"
    by blast
  have ne: "[''q1'', ''q2''] \<noteq> []" by simp
  note T = download_sleeps_after_every_query[where e = demo_env and a = demo_api
      and since_date = "''2019-05-01''" and until_date = "''2019-05-04''"
      and coll = demo_collection and w = w0 and qs = "[''q1'', ''q2'']" and w' = w']
  have "\<exists>pre r. emitted w0 w'
           = pre @ [Randint 30 120 r, Sleep r,
                    Log INFO ''download_and_store_tweets_on_mongodb <<<'' None]"
    by (rule T[THEN conjunct2, THEN mp, OF run, THEN conjunct2, THEN mp, OF ne])
  with run rs show ?thesis by (intro exI[of _ w'] conjI)
qed

text \<open>The pass in which the write raises an exception that no clause names.\<close>

lemma loop_body_sink_unhandled:
  assumes "api_search e (cursor_id c) (request c) (position c) = Inr t"
    and "insert_one e coll (insert_calls w) (filtered_tweet query t) = Some x"
    and "\<not> handled x"
  shows "loop_body e query coll c b w
           = (Propagate x, c\<lparr>position := Suc (position c)\<rparr>, b,
              w\<lparr>trace := trace w @ [Next (cursor_id c) (Inr t),
                   Log INFO (''Query: '' @ query @ '', Tweet_date: ''
                             @ format_value e (created_at t)) None,
                   InsertOne coll (filtered_tweet query t) (Some x)],
                insert_calls := Suc (insert_calls w)\<rparr>)"
  using assms by (cases x) (simp_all add: body_defs handled_def)

text \<open>
  C7. A pass of the loop in which \<open>next()\<close> or \<open>insert_one\<close> raises an exception
  that is not \<open>StopIteration\<close>, \<open>PyMongoError\<close> or \<open>TweepError\<close> ends the loop with that
  exception. In a call of \<open>collect_and_store_tweets_from_query\<close>, and in a call of
  \<open>download_and_store_tweets_on_mongodb\<close>, that returns or raises: the exceptions raised
  by \<open>next()\<close> and \<open>insert_one\<close> that are none of the three are none when the call
  returns, and the one exception of the call when it raises; then the call that raised
  it is the last effect of the run, and the cursors opened are those of the first \<open>k\<close>
  queries, the \<open>k\<close>-th being the one whose loop raised.
\<close>

theorem unhandled_exception_aborts_run:
  "(api_search e (cursor_id c) (request c) (position c) = Inl x \<and> \<not> handled x
      \<longrightarrow> loop_body e query coll c b w
            = (Propagate x, c\<lparr>position := Suc (position c)\<rparr>, b,
               w\<lparr>trace := trace w @ [Next (cursor_id c) (Inl x)]\<rparr>))
   \<and> (api_search e (cursor_id c) (request c) (position c) = Inr t
        \<and> insert_one e coll (insert_calls w) (filtered_tweet query t) = Some x \<and> \<not> handled x
      \<longrightarrow> loop_body e query coll c b w
            = (Propagate x, c\<lparr>position := Suc (position c)\<rparr>, b,
               w\<lparr>trace := trace w @ [Next (cursor_id c) (Inr t),
                    Log INFO (''Query: '' @ query @ '', Tweet_date: ''
                              @ format_value e (created_at t)) None,
                    InsertOne coll (filtered_tweet query t) (Some x)],
                 insert_calls := Suc (insert_calls w)\<rparr>))
   \<and> (collect_and_store_tweets_from_query e a query since_date until_date coll n w = Some (r1, w1)
      \<longrightarrow> filter (\<lambda>x. \<not> handled x) (raised (emitted w w1))
            = (case r1 of Inl x \<Rightarrow> [x] | Inr u \<Rightarrow> [])
          \<and> (\<forall>x. r1 = Inl x \<longrightarrow> \<not> handled x \<and> raised_of (last (emitted w w1)) = [x]))
   \<and> (download_and_store_tweets_on_mongodb e a qs since_date until_date coll w = Some (r, w')
      \<longrightarrow> filter (\<lambda>x. \<not> handled x) (raised (emitted w w'))
            = (case r of Inl x \<Rightarrow> [x] | Inr u \<Rightarrow> [])
          \<and> (\<forall>x. r = Inl x \<longrightarrow> \<not> handled x \<and> raised_of (last (emitted w w')) = [x]
                \<and> (\<exists>k. 0 < k \<and> k \<le> length qs
                      \<and> map snd (opened (emitted w w'))
                          = map (\<lambda>query. spec_request a query since_date until_date 200)
                              (take k qs))))"
proof (intro conjI impI)
  assume "api_search e (cursor_id c) (request c) (position c) = Inl x \<and> \<not> handled x"
  then show "loop_body e query coll c b w
            = (Propagate x, c\<lparr>position := Suc (position c)\<rparr>, b,
               w\<lparr>trace := trace w @ [Next (cursor_id c) (Inl x)]\<rparr>)"
    by (simp add: loop_body_unhandled)
next
  assume "api_search e (cursor_id c) (request c) (position c) = Inr t
        \<and> insert_one e coll (insert_calls w) (filtered_tweet query t) = Some x \<and> \<not> handled x"
  then show "loop_body e query coll c b w
            = (Propagate x, c\<lparr>position := Suc (position c)\<rparr>, b,
               w\<lparr>trace := trace w @ [Next (cursor_id c) (Inr t),
                    Log INFO (''Query: '' @ query @ '', Tweet_date: ''
                              @ format_value e (created_at t)) None,
                    InsertOne coll (filtered_tweet query t) (Some x)],
                 insert_calls := Suc (insert_calls w)\<rparr>)"
    by (simp add: loop_body_sink_unhandled)
next
  assume run: "collect_and_store_tweets_from_query e a query since_date until_date coll n w
                 = Some (r1, w1)"
  note C = collect_effects[OF run]
  show "filter (\<lambda>x. \<not> handled x) (raised (emitted w w1))
            = (case r1 of Inl x \<Rightarrow> [x] | Inr u \<Rightarrow> [])"
    using C by (elim conjE)
  show "\<forall>x. r1 = Inl x \<longrightarrow> \<not> handled x \<and> raised_of (last (emitted w w1)) = [x]"
    using C by (elim conjE)
next
  assume run: "download_and_store_tweets_on_mongodb e a qs since_date until_date coll w
                 = Some (r, w')"
  note D = download_raised[OF run]
  show "filter (\<lambda>x. \<not> handled x) (raised (emitted w w'))
            = (case r of Inl x \<Rightarrow> [x] | Inr u \<Rightarrow> [])"
    using D by (elim conjE)
  from D
  show "\<forall>x. r = Inl x \<longrightarrow> \<not> handled x \<and> raised_of (last (emitted w w')) = [x]
                \<and> (\<exists>k. 0 < k \<and> k \<le> length qs
                      \<and> map snd (opened (emitted w w'))
                          = map (\<lambda>query. spec_request a query since_date until_date 200)
                              (take k qs))"
    by (elim conjE)
qed

theorem unhandled_exception_aborts_run_witness:
  "\<exists>w'. download_and_store_tweets_on_mongodb demo_env demo_api [''q1'', ''bad'', ''q2'']
           ''2019-05-01'' ''2019-05-04'' demo_collection w0
           = Some (Inl (OtherException ''ConnectionError''), w')
     \<and> filter (\<lambda>x. \<not> handled x) (raised (emitted w0 w')) = [OtherException ''ConnectionError'']
     \<and> raised_of (last (emitted w0 w')) = [OtherException ''ConnectionError'']
     \<and> map snd (opened (emitted w0 w'))
         = [spec_request demo_api ''q1'' ''2019-05-01'' ''2019-05-04'' 200,
            spec_request demo_api ''bad'' ''2019-05-01'' ''2019-05-04'' 200]"
proof -
  obtain w' where
    run: "download_and_store_tweets_on_mongodb demo_env demo_api [''q1'', ''bad'', ''q2'']
           ''2019-05-01'' ''2019-05-04'' demo_collection w0
           = Some (Inl (OtherException ''ConnectionError''), w')"
    and op: "map snd (opened (emitted w0 w'))
         = [spec_request demo_api ''q1'' ''2019-05-01'' ''2019-05-04'' 200,
            spec_request demo_api ''bad'' ''2019-05-01'' ''2019-05-04'' 200]"
  proof -
    from demo_download_bad[of demo_api "''2019-05-01''" "''2019-05-04''" demo_collection]
    show thesis by (elim exE conjE) (rule that)
  qed
  note T = unhandled_exception_aborts_run[where e = demo_env and a = demo_api
      and qs = "[''q1'', ''bad'', ''q2'']" and since_date = "''2019-05-01''"
      and until_date = "''2019-05-04''" and coll = demo_collection and w = w0
      and r = "Inl (OtherException ''ConnectionError'')" and w' = w']
  note D = T[THEN conjunct2, THEN conjunct2, THEN conjunct2, THEN mp, OF run]
  have f: "filter (\<lambda>x. \<not> handled x) (raised (emitted w0 w'))
             = (case (Inl (OtherException ''ConnectionError'') :: exn + unit) of
                  Inl x \<Rightarrow> [x] | Inr u \<Rightarrow> [])"
    by (rule D[THEN conjunct1])
  have l: "raised_of (last (emitted w0 w')) = [OtherException ''ConnectionError'']"
    by (rule D[THEN conjunct2, THEN spec, THEN mp, OF refl, THEN conjunct2, THEN conjunct1])
  from f have f': "filter (\<lambda>x. \<not> handled x) (raised (emitted w0 w'))
                     = [OtherException ''ConnectionError'']" by simp
  from run f' l op show ?thesis by (intro exI[of _ w'] conjI)
qed

section \<open>Properties of download_and_store_tweets_on_default_mongodb_instance\<close>








end
